theory Spec2Isabelle
  imports Main "HOL-Library.Word"
begin

unbundle bit_operations_syntax

section \<open>Strings and the Unicode classes\<close>

text \<open>
  A Go string read from \<^verbatim>\<open>config.json\<close> is valid UTF-8 (\<^verbatim>\<open>json.Unmarshal\<close> replaces
  every invalid byte by U+FFFD), so a string is modelled as the sequence of its code
  points: this is what \<^verbatim>\<open>for _, ch := range s\<close> yields, and byte-wise operations with
  ASCII arguments (\<^verbatim>\<open>strings.Split(env, "=")\<close>, \<^verbatim>\<open>path.IsAbs\<close>, \<^verbatim>\<open>==\<close>, a regular
  expression over ASCII classes) agree with their code-point versions on valid UTF-8.
  \<open>S\<close> turns an ASCII literal into such a string.
\<close>

type_synonym rune = nat
type_synonym gostring = "rune list"

definition S :: "string \<Rightarrow> gostring" where
  "S cs = map of_char cs"

text \<open>
  \<^verbatim>\<open>unicode.IsLetter\<close>, \<^verbatim>\<open>unicode.IsDigit\<close> and \<^verbatim>\<open>unicode.IsSpace\<close> of Go's standard
  library. Their value on ASCII is written out; beyond ASCII they read the Unicode
  tables, which are a parameter here.
\<close>

record unicode_tables =
  letterTable :: "rune \<Rightarrow> bool"
  digitTable :: "rune \<Rightarrow> bool"
  spaceTable :: "rune \<Rightarrow> bool"

definition IsLetter :: "unicode_tables \<Rightarrow> rune \<Rightarrow> bool" where
  "IsLetter U r =
     (if r < 128 then (65 \<le> r \<and> r \<le> 90) \<or> (97 \<le> r \<and> r \<le> 122) else letterTable U r)"

definition IsDigit :: "unicode_tables \<Rightarrow> rune \<Rightarrow> bool" where
  "IsDigit U r = (if r < 128 then 48 \<le> r \<and> r \<le> 57 else digitTable U r)"

definition IsSpace :: "unicode_tables \<Rightarrow> rune \<Rightarrow> bool" where
  "IsSpace U r = (if r < 128 then r \<in> {9, 10, 11, 12, 13, 32} else spaceTable U r)"

text \<open>The tables that classify nothing beyond ASCII, for evaluating ASCII examples.\<close>

definition asciiOnly :: unicode_tables where
  "asciiOnly = \<lparr>letterTable = (\<lambda>r. False), digitTable = (\<lambda>r. False), spaceTable = (\<lambda>r. False)\<rparr>"

text \<open>\<^verbatim>\<open>strings.TrimSpace\<close>: the string without its leading and trailing white space.\<close>

definition TrimSpace :: "unicode_tables \<Rightarrow> gostring \<Rightarrow> gostring" where
  "TrimSpace U s = rev (dropWhile (IsSpace U) (rev (dropWhile (IsSpace U) s)))"

text \<open>
  \<^verbatim>\<open>strings.Split(s, sep)\<close> for a separator of one ASCII character, the only way the
  program calls it: the pieces between the separators, always at least one piece.
\<close>

fun Split :: "gostring \<Rightarrow> rune \<Rightarrow> gostring list" where
  "Split [] sep = [[]]"
| "Split (c # cs) sep =
     (if c = sep then [] # Split cs sep
      else (case Split cs sep of [] \<Rightarrow> [[c]] | p # ps \<Rightarrow> (c # p) # ps))"

text \<open>\<^verbatim>\<open>strings.Contains(s, substr)\<close>.\<close>

fun HasPrefix :: "gostring \<Rightarrow> gostring \<Rightarrow> bool" where
  "HasPrefix s [] = True"
| "HasPrefix [] (p # ps) = False"
| "HasPrefix (c # cs) (p # ps) = (c = p \<and> HasPrefix cs ps)"

fun Contains :: "gostring \<Rightarrow> gostring \<Rightarrow> bool" where
  "Contains [] sub = (sub = [])"
| "Contains (c # cs) sub = (HasPrefix (c # cs) sub \<or> Contains cs sub)"

text \<open>\<^verbatim>\<open>path.IsAbs\<close>, and \<^verbatim>\<open>filepath.IsAbs\<close> on a Unix host: the path starts with a slash.\<close>

definition IsAbs :: "gostring \<Rightarrow> bool" where
  "IsAbs p = (case p of [] \<Rightarrow> False | c # cs \<Rightarrow> c = 47)"

section \<open>The configuration document\<close>

text \<open>
  The types of \<^verbatim>\<open>runtime-spec/specs-go\<close> with the fields the checkers read. Go's
  \<^verbatim>\<open>int64\<close>, \<^verbatim>\<open>uint64\<close> and \<^verbatim>\<open>uint32\<close> are machine words, and so is \<^verbatim>\<open>uint\<close>, of 64 bits
  on the platforms the tool is built for; a pointer that may be nil is an option.
  A field name used by several Go structs carries the struct's name as a prefix.
\<close>

record Platform =
  OS :: gostring
  Arch :: gostring

record Rlimit =
  rlimitType :: gostring
  Hard :: "64 word"
  Soft :: "64 word"

record Process =
  Cwd :: gostring
  Env :: "gostring list"
  Capabilities :: "gostring list"
  Rlimits :: "Rlimit list"
  ApparmorProfile :: gostring

record Hook =
  hookPath :: gostring
  hookArgs :: "gostring list"
  hookEnv :: "gostring list"

record Hooks =
  Prestart :: "Hook list"
  Poststart :: "Hook list"
  Poststop :: "Hook list"

record IDMapping =
  HostID :: "32 word"
  ContainerID :: "32 word"
  Size :: "32 word"

record Namespace =
  nsType :: gostring
  nsPath :: gostring

record Device =
  devPath :: gostring
  devType :: gostring
  Major :: "64 word"
  Minor :: "64 word"

record Arg =
  Index :: "64 word"
  Value :: "64 word"
  ValueTwo :: "64 word"
  Op :: gostring

record Syscall =
  Name :: gostring
  Action :: gostring
  Args :: "Arg list"

record Seccomp =
  DefaultAction :: gostring
  Architectures :: "gostring list"
  Syscalls :: "Syscall list"

record Linux =
  UIDMappings :: "IDMapping list"
  GIDMappings :: "IDMapping list"
  Namespaces :: "Namespace list"
  Devices :: "Device list"
  Seccomp :: "Seccomp option"
  RootfsPropagation :: gostring

record Spec =
  Version :: gostring
  Platform :: Platform
  Process :: Process
  Hostname :: gostring
  Hooks :: Hooks
  Linux :: Linux

section \<open>Validation errors and the host\<close>

text \<open>
  One constructor for each \<^verbatim>\<open>fmt.Errorf\<close> of the program, holding the values its
  message is formatted from; \<open>ErrStat\<close> is the error of \<^verbatim>\<open>os.Stat\<close> that the process
  checker appends as it is.
\<close>

type_synonym errno = nat

datatype verr =
    ErrVersion gostring
  | ErrCombination gostring gostring
  | ErrOperationSystem gostring
  | ErrHookNotAbsolute gostring gostring
  | ErrHookNotFound gostring gostring
  | ErrHookNotExecutable gostring gostring
  | ErrHookEnv gostring gostring
  | ErrCwd gostring
  | ErrEnv gostring
  | ErrCapability gostring
  | ErrRlimit gostring
  | ErrStat gostring errno
  | ErrUIDMappings
  | ErrGIDMappings
  | ErrNamespace Namespace
  | ErrHostnameUTS
  | ErrDevice Device
  | ErrRootfsPropagation
  | ErrSeccompDefaultAction gostring
  | ErrSyscall Syscall
  | ErrSeccompArchitecture gostring
  | ErrMandatoryUnit gostring gostring
  | ErrMandatoryPointer gostring gostring

text \<open>A run-time panic of the Go program: the call does not return.\<close>

datatype fault = NilDereference | ZeroValueField

record FileInfo =
  fileMode :: "32 word"

section \<open>The document as reflection shows it\<close>

text \<open>
  The mandatory-field walker reads the document through Go's \<^verbatim>\<open>reflect\<close> package. A
  \<open>gval\<close> is a \<^verbatim>\<open>reflect.Value\<close> with what the walker can ask of it: its kind, the
  length of a string, slice or map, whether a pointer is nil, and for a struct the type's
  name and, per field, its name, its \<^verbatim>\<open>json\<close> tag, whether it is exported
  (\<^verbatim>\<open>CanInterface\<close>) and its value. A nil pointer keeps its element type: struct (with
  the number of fields) or not. A nil slice and a nil map have length 0 and are the empty
  list. The entries of a map stand in the order \<^verbatim>\<open>MapKeys\<close> lists them. \<open>VOpaque\<close> is
  a value of a kind the walker never inspects (array, channel, function, complex number).
\<close>

datatype elem = ElemStruct nat | ElemOther

datatype gval =
    VBool bool
  | VInt int
  | VUint nat
  | VFloat "64 word"
  | VString gostring
  | VNilPtr elem
  | VPtr gval
  | VSlice "gval list"
  | VMap "(gval \<times> gval) list"
  | VStruct gostring "field list"
  | VInterface "gval option"
  | VOpaque
and field = Field (fieldName: gostring) (jsonTag: gostring) (exported: bool) (fieldValue: gval)

section \<open>What the checkers read besides the document\<close>

text \<open>
  \<^item> \<open>hooksCheck\<close>: the package variable set from the \<^verbatim>\<open>--hooks\<close> flag;
  \<^item> \<open>defaultCaps\<close>: the package's list of capability names, declared in another file;
  \<^item> \<open>os_Stat\<close>: the file system as \<^verbatim>\<open>os.Stat\<close> answers, an error number or the file's
    information;
  \<^item> \<open>path_Join\<close>: \<^verbatim>\<open>path.Join\<close> of the standard library;
  \<^item> \<open>unicode\<close>: the Unicode tables;
  \<^item> \<open>reflectSpec\<close>: \<^verbatim>\<open>reflect.ValueOf(spec)\<close>, fixed by the struct declarations of the
    runtime-spec library.
\<close>

record world =
  hooksCheck :: bool
  defaultCaps :: "gostring list"
  os_Stat :: "gostring \<Rightarrow> errno + FileInfo"
  path_Join :: "gostring list \<Rightarrow> gostring"
  unicode :: unicode_tables
  reflectSpec :: "Spec \<Rightarrow> gval"

section \<open>The version checker\<close>

text \<open>
  Regular expressions with the operators the version pattern uses, matched by
  derivatives. \<open>Digit\<close> is \<^verbatim>\<open>\d\<close>, the ASCII digits. The pattern
  \<^verbatim>\<open>^(\d+)?\.(\d+)?\.(\d+)?$\<close> is anchored at both ends of the text (no multi-line flag), so
  \<^verbatim>\<open>re.Match\<close> holds exactly when its body matches the whole text.
\<close>

datatype regexp =
    NoMatch
  | EmptyMatch
  | Literal rune
  | Digit
  | Concat regexp regexp
  | Alternate regexp regexp
  | Quest regexp
  | Plus regexp

fun nullable :: "regexp \<Rightarrow> bool" where
  "nullable NoMatch = False"
| "nullable EmptyMatch = True"
| "nullable (Literal a) = False"
| "nullable Digit = False"
| "nullable (Concat r s) = (nullable r \<and> nullable s)"
| "nullable (Alternate r s) = (nullable r \<or> nullable s)"
| "nullable (Quest r) = True"
| "nullable (Plus r) = nullable r"

fun deriv :: "rune \<Rightarrow> regexp \<Rightarrow> regexp" where
  "deriv c NoMatch = NoMatch"
| "deriv c EmptyMatch = NoMatch"
| "deriv c (Literal a) = (if a = c then EmptyMatch else NoMatch)"
| "deriv c Digit = (if 48 \<le> c \<and> c \<le> 57 then EmptyMatch else NoMatch)"
| "deriv c (Concat r s) =
     (if nullable r then Alternate (Concat (deriv c r) s) (deriv c s)
      else Concat (deriv c r) s)"
| "deriv c (Alternate r s) = Alternate (deriv c r) (deriv c s)"
| "deriv c (Quest r) = deriv c r"
| "deriv c (Plus r) = Concat (deriv c r) (Quest (Plus r))"

fun Match :: "regexp \<Rightarrow> gostring \<Rightarrow> bool" where
  "Match r [] = nullable r"
| "Match r (c # cs) = Match (deriv c r) cs"

definition semVerPattern :: regexp where
  "semVerPattern =
     Concat (Quest (Plus Digit))
       (Concat (Literal 46)
          (Concat (Quest (Plus Digit))
             (Concat (Literal 46) (Quest (Plus Digit)))))"

definition checkSemVer :: "Spec \<Rightarrow> gostring \<Rightarrow> verr list" where
  "checkSemVer spec rootfs =
     (let version = Version spec in
      if \<not> Match semVerPattern version then [ErrVersion version] else [])"

section \<open>The platform checker\<close>

definition validCombins :: "(gostring \<times> gostring list) list" where
  "validCombins =
     [(S ''darwin'', [S ''386'', S ''amd64'', S ''arm'', S ''arm64'']),
      (S ''dragonfly'', [S ''amd64'']),
      (S ''freebsd'', [S ''386'', S ''amd64'', S ''arm'']),
      (S ''linux'', [S ''386'', S ''amd64'', S ''arm'', S ''arm64'', S ''ppc64'', S ''ppc64le'',
                     S ''mips64'', S ''mips64le'']),
      (S ''netbsd'', [S ''386'', S ''amd64'', S ''arm'']),
      (S ''openbsd'', [S ''386'', S ''amd64'', S ''arm'']),
      (S ''plan9'', [S ''386'', S ''amd64'']),
      (S ''solaris'', [S ''amd64'']),
      (S ''windows'', [S ''386'', S ''amd64''])]"

text \<open>
  The loops of \<^verbatim>\<open>checkPlatform\<close>. Go ranges over the map in no fixed order;
  \<open>checkPlatform_range\<close> takes the entries in the order of the iteration, and
  \<open>checkPlatform\<close> is the iteration in the order of the map literal.
\<close>

fun archListed :: "gostring list \<Rightarrow> gostring \<Rightarrow> bool" where
  "archListed [] a = False"
| "archListed (arch # archs) a = (if arch = a then True else archListed archs a)"

fun checkPlatform_range :: "(gostring \<times> gostring list) list \<Rightarrow> Platform \<Rightarrow> verr list" where
  "checkPlatform_range [] platform = [ErrOperationSystem (OS platform)]"
| "checkPlatform_range ((os, archs) # rest) platform =
     (if os = OS platform then
        (if archListed archs (Arch platform) then []
         else [ErrCombination (OS platform) (Arch platform)])
      else checkPlatform_range rest platform)"

definition checkPlatform :: "Spec \<Rightarrow> gostring \<Rightarrow> verr list" where
  "checkPlatform spec rootfs = checkPlatform_range validCombins (Platform spec)"

section \<open>The validators of single values\<close>

text \<open>
  \<^verbatim>\<open>envValid\<close>: the entry is split at every \<^verbatim>\<open>=\<close> (61); with fewer than two pieces it
  is invalid; otherwise the first piece, trimmed, is scanned, and the first character
  that is neither a digit, nor a letter, nor \<^verbatim>\<open>_\<close> (95) makes it invalid.
\<close>

fun envValid_range :: "unicode_tables \<Rightarrow> gostring \<Rightarrow> bool" where
  "envValid_range U [] = True"
| "envValid_range U (ch # chs) =
     (if \<not> IsDigit U ch \<and> \<not> IsLetter U ch \<and> ch \<noteq> 95 then False
      else envValid_range U chs)"

definition envValid :: "unicode_tables \<Rightarrow> gostring \<Rightarrow> bool" where
  "envValid U env =
     (let items = Split env 61 in
      if length items < 2 then False
      else envValid_range U (TrimSpace U (items ! 0)))"

fun listed :: "gostring list \<Rightarrow> gostring \<Rightarrow> bool" where
  "listed [] x = False"
| "listed (val # vals) x = (if val = x then True else listed vals x)"

definition capValid :: "world \<Rightarrow> gostring \<Rightarrow> bool" where
  "capValid W capability = listed (defaultCaps W) capability"

definition defaultRlimits :: "gostring list" where
  "defaultRlimits =
     [S ''RLIMIT_CPU'', S ''RLIMIT_FSIZE'', S ''RLIMIT_DATA'', S ''RLIMIT_STACK'',
      S ''RLIMIT_CORE'', S ''RLIMIT_RSS'', S ''RLIMIT_NPROC'', S ''RLIMIT_NOFILE'',
      S ''RLIMIT_MEMLOCK'', S ''RLIMIT_AS'', S ''RLIMIT_LOCKS'', S ''RLIMIT_SIGPENDING'',
      S ''RLIMIT_MSGQUEUE'', S ''RLIMIT_NICE'', S ''RLIMIT_RTPRIO'', S ''RLIMIT_RTTIME'']"

definition rlimitValid :: "gostring \<Rightarrow> bool" where
  "rlimitValid rlimit = listed defaultRlimits rlimit"

text \<open>The constants of the runtime-spec library that the switches name.\<close>

definition PIDNamespace :: gostring where "PIDNamespace = S ''pid''"
definition NetworkNamespace :: gostring where "NetworkNamespace = S ''network''"
definition MountNamespace :: gostring where "MountNamespace = S ''mount''"
definition IPCNamespace :: gostring where "IPCNamespace = S ''ipc''"
definition UTSNamespace :: gostring where "UTSNamespace = S ''uts''"
definition UserNamespace :: gostring where "UserNamespace = S ''user''"

definition ArchX86 :: gostring where "ArchX86 = S ''SCMP_ARCH_X86''"
definition ArchX86_64 :: gostring where "ArchX86_64 = S ''SCMP_ARCH_X86_64''"
definition ArchX32 :: gostring where "ArchX32 = S ''SCMP_ARCH_X32''"
definition ArchARM :: gostring where "ArchARM = S ''SCMP_ARCH_ARM''"
definition ArchAARCH64 :: gostring where "ArchAARCH64 = S ''SCMP_ARCH_AARCH64''"
definition ArchMIPS :: gostring where "ArchMIPS = S ''SCMP_ARCH_MIPS''"
definition ArchMIPS64 :: gostring where "ArchMIPS64 = S ''SCMP_ARCH_MIPS64''"
definition ArchMIPS64N32 :: gostring where "ArchMIPS64N32 = S ''SCMP_ARCH_MIPS64N32''"
definition ArchMIPSEL :: gostring where "ArchMIPSEL = S ''SCMP_ARCH_MIPSEL''"
definition ArchMIPSEL64 :: gostring where "ArchMIPSEL64 = S ''SCMP_ARCH_MIPSEL64''"
definition ArchMIPSEL64N32 :: gostring where "ArchMIPSEL64N32 = S ''SCMP_ARCH_MIPSEL64N32''"

definition ActKill :: gostring where "ActKill = S ''SCMP_ACT_KILL''"
definition ActTrap :: gostring where "ActTrap = S ''SCMP_ACT_TRAP''"
definition ActErrno :: gostring where "ActErrno = S ''SCMP_ACT_ERRNO''"
definition ActTrace :: gostring where "ActTrace = S ''SCMP_ACT_TRACE''"
definition ActAllow :: gostring where "ActAllow = S ''SCMP_ACT_ALLOW''"

definition OpNotEqual :: gostring where "OpNotEqual = S ''SCMP_CMP_NE''"
definition OpLessEqual :: gostring where "OpLessEqual = S ''SCMP_CMP_LE''"
definition OpEqualTo :: gostring where "OpEqualTo = S ''SCMP_CMP_EQ''"
definition OpGreaterEqual :: gostring where "OpGreaterEqual = S ''SCMP_CMP_GE''"
definition OpGreaterThan :: gostring where "OpGreaterThan = S ''SCMP_CMP_GT''"
definition OpMaskedEqual :: gostring where "OpMaskedEqual = S ''SCMP_CMP_MASKED_EQ''"

definition namespaceValid :: "Namespace \<Rightarrow> bool" where
  "namespaceValid ns =
     (if nsType ns = PIDNamespace then True
      else if nsType ns = NetworkNamespace then True
      else if nsType ns = MountNamespace then True
      else if nsType ns = IPCNamespace then True
      else if nsType ns = UTSNamespace then True
      else if nsType ns = UserNamespace then True
      else False)"

text \<open>\<^verbatim>\<open>deviceValid\<close>: \<^verbatim>\<open>Major\<close> and \<^verbatim>\<open>Minor\<close> are \<^verbatim>\<open>int64\<close>, compared as signed numbers.\<close>

definition deviceValid :: "Device \<Rightarrow> bool" where
  "deviceValid d =
     (if devType d = S ''b'' then True
      else if devType d = S ''c'' then True
      else if devType d = S ''u'' then
        (if sint (Major d) \<le> 0 then False
         else if sint (Minor d) \<le> 0 then False
         else True)
      else if devType d = S ''p'' then
        (if 0 < sint (Major d) \<or> 0 < sint (Minor d) then False else True)
      else False)"

definition seccompActionValid :: "gostring \<Rightarrow> bool" where
  "seccompActionValid secc =
     (if secc = [] then True
      else if secc = ActKill then True
      else if secc = ActTrap then True
      else if secc = ActErrno then True
      else if secc = ActTrace then True
      else if secc = ActAllow then True
      else False)"

definition opValid :: "gostring \<Rightarrow> bool" where
  "opValid op =
     (if op = OpNotEqual then True
      else if op = OpLessEqual then True
      else if op = OpEqualTo then True
      else if op = OpGreaterEqual then True
      else if op = OpGreaterThan then True
      else if op = OpMaskedEqual then True
      else False)"

fun syscallValid_args :: "Arg list \<Rightarrow> bool" where
  "syscallValid_args [] = True"
| "syscallValid_args (arg # args) = (if opValid (Op arg) then syscallValid_args args else False)"

definition syscallValid :: "Syscall \<Rightarrow> bool" where
  "syscallValid s =
     (if \<not> seccompActionValid (Action s) then False else syscallValid_args (Args s))"

section \<open>The process, Linux, seccomp and hook checkers\<close>

text \<open>
  The loop shape most checks share: for each element in order, an invalid one
  appends its error to \<^verbatim>\<open>errs\<close>.
\<close>

fun appendInvalid :: "('a \<Rightarrow> bool) \<Rightarrow> ('a \<Rightarrow> verr) \<Rightarrow> 'a list \<Rightarrow> verr list \<Rightarrow> verr list" where
  "appendInvalid valid mk [] errs = errs"
| "appendInvalid valid mk (x # xs) errs =
     appendInvalid valid mk xs (if \<not> valid x then errs @ [mk x] else errs)"

definition checkProcess :: "world \<Rightarrow> Spec \<Rightarrow> gostring \<Rightarrow> verr list" where
  "checkProcess W spec rootfs =
     (let process = Process spec;
          errs = [];
          errs = (if \<not> IsAbs (Cwd process) then errs @ [ErrCwd (Cwd process)] else errs);
          errs = appendInvalid (envValid (unicode W)) ErrEnv (Env process) errs;
          errs = appendInvalid (capValid W) ErrCapability (Capabilities process) errs;
          errs = appendInvalid (\<lambda>r. rlimitValid (rlimitType r)) (\<lambda>r. ErrRlimit (rlimitType r))
                   (Rlimits process) errs
      in if length (ApparmorProfile process) > 0 then
           (let profilePath = path_Join W [rootfs, S ''/etc/apparmor.d'', ApparmorProfile process]
            in case os_Stat W profilePath of
                 Inl err \<Rightarrow> errs @ [ErrStat profilePath err]
               | Inr fi \<Rightarrow> errs)
         else errs)"

definition seccompArchValid :: "gostring \<Rightarrow> bool" where
  "seccompArchValid a =
     (if a = ArchX86 then True
      else if a = ArchX86_64 then True
      else if a = ArchX32 then True
      else if a = ArchARM then True
      else if a = ArchAARCH64 then True
      else if a = ArchMIPS then True
      else if a = ArchMIPS64 then True
      else if a = ArchMIPS64N32 then True
      else if a = ArchMIPSEL then True
      else if a = ArchMIPSEL64 then True
      else if a = ArchMIPSEL64N32 then True
      else False)"

definition checkSeccomp :: "Seccomp \<Rightarrow> verr list" where
  "checkSeccomp s =
     (let errs = [];
          errs = (if \<not> seccompActionValid (DefaultAction s)
                  then errs @ [ErrSeccompDefaultAction (DefaultAction s)] else errs);
          errs = appendInvalid syscallValid ErrSyscall (Syscalls s) errs;
          errs = appendInvalid seccompArchValid ErrSeccompArchitecture (Architectures s) errs
      in errs)"

text \<open>The namespace loop of \<^verbatim>\<open>checkLinux\<close>, on the pair of \<^verbatim>\<open>errs\<close> and \<^verbatim>\<open>utsExists\<close>.\<close>

fun checkLinux_namespaces :: "Namespace list \<Rightarrow> verr list \<times> bool \<Rightarrow> verr list \<times> bool" where
  "checkLinux_namespaces [] st = st"
| "checkLinux_namespaces (ns # nss) (errs, utsExists) =
     checkLinux_namespaces nss
       (if \<not> namespaceValid ns then (errs @ [ErrNamespace ns], utsExists)
        else if nsType ns = UTSNamespace then (errs, True)
        else (errs, utsExists))"

definition rootfsPropagationValid :: "gostring \<Rightarrow> bool" where
  "rootfsPropagationValid m =
     (if m = [] then True
      else if m = S ''private'' then True
      else if m = S ''rprivate'' then True
      else if m = S ''slave'' then True
      else if m = S ''rslave'' then True
      else if m = S ''shared'' then True
      else if m = S ''rshared'' then True
      else False)"

definition checkLinux :: "Spec \<Rightarrow> gostring \<Rightarrow> verr list" where
  "checkLinux spec rootfs =
     (let errs = [];
          errs = (if length (UIDMappings (Linux spec)) > 5 then errs @ [ErrUIDMappings] else errs);
          errs = (if length (GIDMappings (Linux spec)) > 5 then errs @ [ErrGIDMappings] else errs);
          (errs, utsExists) = checkLinux_namespaces (Namespaces (Linux spec)) (errs, False);
          errs = (if OS (Platform spec) = S ''linux'' \<and> \<not> utsExists \<and> Hostname spec \<noteq> []
                  then errs @ [ErrHostnameUTS] else errs);
          errs = appendInvalid deviceValid ErrDevice (Devices (Linux spec)) errs;
          errs = (case Seccomp (Linux spec) of
                    None \<Rightarrow> errs
                  | Some s \<Rightarrow> errs @ checkSeccomp s)
      in if rootfsPropagationValid (RootfsPropagation (Linux spec)) then errs
         else errs @ [ErrRootfsPropagation])"

text \<open>
  \<^verbatim>\<open>fi.Mode()\<close>: \<^verbatim>\<open>os.Stat\<close> returns a nil \<^verbatim>\<open>FileInfo\<close> with its error, and a method
  call on the nil interface panics.
\<close>

definition Mode :: "FileInfo option \<Rightarrow> fault + 32 word" where
  "Mode fi = (case fi of None \<Rightarrow> Inl NilDereference | Some i \<Rightarrow> Inr (fileMode i))"

text \<open>
  The body of the loop of \<^verbatim>\<open>checkEventHooks\<close> for one hook; \<^verbatim>\<open>0111\<close> is octal, 73.
  After a failed \<^verbatim>\<open>os.Stat\<close> the error is appended and the code goes on to \<^verbatim>\<open>fi.Mode()\<close>.
\<close>

definition checkEventHooks_hook :: "world \<Rightarrow> gostring \<Rightarrow> Hook \<Rightarrow> verr list \<Rightarrow> fault + verr list" where
  "checkEventHooks_hook W hookType hook errs0 =
     (let errs = (if \<not> IsAbs (hookPath hook)
                  then errs0 @ [ErrHookNotAbsolute hookType (hookPath hook)] else errs0);
          envs = (\<lambda>errs. appendInvalid (envValid (unicode W))
                    (\<lambda>env. ErrHookEnv env (hookPath hook)) (hookEnv hook) errs)
      in if hooksCheck W then
           (let r = os_Stat W (hookPath hook);
                fi = (case r of Inl err \<Rightarrow> None | Inr i \<Rightarrow> Some i);
                errs = (case r of
                          Inl err \<Rightarrow> errs @ [ErrHookNotFound hookType (hookPath hook)]
                        | Inr i \<Rightarrow> errs)
            in case Mode fi of
                 Inl p \<Rightarrow> Inl p
               | Inr m \<Rightarrow>
                   Inr (envs (if m AND 73 = 0
                              then errs @ [ErrHookNotExecutable hookType (hookPath hook)]
                              else errs)))
         else Inr (envs errs))"

fun checkEventHooks_range :: "world \<Rightarrow> gostring \<Rightarrow> Hook list \<Rightarrow> verr list \<Rightarrow> fault + verr list" where
  "checkEventHooks_range W hookType [] errs = Inr errs"
| "checkEventHooks_range W hookType (hook # hooks) errs =
     (case checkEventHooks_hook W hookType hook errs of
        Inl p \<Rightarrow> Inl p
      | Inr errs' \<Rightarrow> checkEventHooks_range W hookType hooks errs')"

definition checkEventHooks :: "world \<Rightarrow> gostring \<Rightarrow> Hook list \<Rightarrow> fault + verr list" where
  "checkEventHooks W hookType hooks = checkEventHooks_range W hookType hooks []"

definition checkHooks :: "world \<Rightarrow> Spec \<Rightarrow> gostring \<Rightarrow> fault + verr list" where
  "checkHooks W spec rootfs =
     (let hooks = Hooks spec in
      case checkEventHooks W (S ''pre-start'') (Prestart hooks) of
        Inl p \<Rightarrow> Inl p
      | Inr e1 \<Rightarrow>
          (case checkEventHooks W (S ''post-start'') (Poststart hooks) of
             Inl p \<Rightarrow> Inl p
           | Inr e2 \<Rightarrow>
               (case checkEventHooks W (S ''post-stop'') (Poststop hooks) of
                  Inl p \<Rightarrow> Inl p
                | Inr e3 \<Rightarrow> Inr (e1 @ e2 @ e3))))"

section \<open>The mandatory-field walker\<close>

fun isStruct :: "gval \<Rightarrow> bool" where
  "isStruct (VStruct name fs) = True"
| "isStruct v = False"

fun isStructPtr :: "gval \<Rightarrow> bool" where
  "isStructPtr (VNilPtr (ElemStruct n)) = True"
| "isStructPtr (VPtr (VStruct name fs)) = True"
| "isStructPtr v = False"

fun IsNil :: "gval \<Rightarrow> bool" where
  "IsNil (VNilPtr e) = True"
| "IsNil v = False"

text \<open>\<^verbatim>\<open>!strings.Contains(tagField.Tag.Get("json"), "omitempty")\<close>.\<close>

definition mandatory :: "gostring \<Rightarrow> bool" where
  "mandatory tag = (\<not> Contains tag (S ''omitempty''))"

text \<open>
  \<^verbatim>\<open>errs = append(errs, f(x)...)\<close> for each \<open>x\<close> in order; a panic inside \<open>f\<close> ends
  the loop.
\<close>

fun appendAll :: "('a \<Rightarrow> fault + verr list) \<Rightarrow> 'a list \<Rightarrow> verr list \<Rightarrow> fault + verr list" where
  "appendAll f [] errs = Inr errs"
| "appendAll f (x # xs) errs =
     (case f x of Inl p \<Rightarrow> Inl p | Inr es \<Rightarrow> appendAll f xs (errs @ es))"

lemma appendAll_cong [fundef_cong]:
  "xs = ys \<Longrightarrow> errs = errs' \<Longrightarrow> (\<And>x. x \<in> set ys \<Longrightarrow> f x = g x)
   \<Longrightarrow> appendAll f xs errs = appendAll g ys errs'"
  by (induction ys arbitrary: xs errs errs') (auto split: sum.splits)

text \<open>
  \<^item> \<open>checkMandatory obj\<close>: a struct, or a pointer to one, has its fields walked; through
    a nil pointer to a struct \<^verbatim>\<open>objV.Elem()\<close> is the zero Value, whose \<^verbatim>\<open>Field(0)\<close>
    panics; anything else returns nil.
  \<^item> \<open>checkField name f\<close>: the body of the loop over the fields.
  \<^item> \<open>checkMandatoryUnit field tagField parent\<close>: the switch on the field's kind.
  \<^item> \<open>checkElement canInterface mValue\<close>: the body of the loops over the elements of a
    slice and the values of a map, \<^verbatim>\<open>checkMandatory(mValue.Interface())\<close>; the content of a
    nil interface has the nil \<^verbatim>\<open>reflect.Type\<close>, whose \<^verbatim>\<open>Kind()\<close> panics.
\<close>

fun checkMandatory :: "gval \<Rightarrow> fault + verr list"
and checkMandatoryUnit :: "gval \<Rightarrow> field \<Rightarrow> gostring \<Rightarrow> fault + verr list"
and checkField :: "gostring \<Rightarrow> field \<Rightarrow> fault + verr list"
and checkElement :: "bool \<Rightarrow> gval \<Rightarrow> fault + verr list"
where
  "checkMandatory obj =
     (case obj of
        VStruct name fs \<Rightarrow> appendAll (checkField name) fs []
      | VPtr (VStruct name fs) \<Rightarrow> appendAll (checkField name) fs []
      | VNilPtr (ElemStruct n) \<Rightarrow> if n = 0 then Inr [] else Inl ZeroValueField
      | _ \<Rightarrow> Inr [])"
| "checkField name (Field fname tag ex v) =
     (if isStructPtr v \<and> IsNil v then
        Inr (if \<not> Contains tag (S ''omitempty'') then [ErrMandatoryPointer name fname] else [])
      else if (isStruct v \<or> isStructPtr v) \<and> ex then checkMandatory v
      else checkMandatoryUnit v (Field fname tag ex v) name)"
| "checkMandatoryUnit v tagField parent =
     (case v of
        VNilPtr e \<Rightarrow>
          Inr (if mandatory (jsonTag tagField)
               then [ErrMandatoryUnit parent (fieldName tagField)] else [])
      | VPtr p \<Rightarrow> Inr []
      | VString s \<Rightarrow>
          Inr (if mandatory (jsonTag tagField) \<and> length s = 0
               then [ErrMandatoryUnit parent (fieldName tagField)] else [])
      | VSlice xs \<Rightarrow>
          if mandatory (jsonTag tagField) \<and> length xs = 0
          then Inr [ErrMandatoryUnit parent (fieldName tagField)]
          else appendAll (checkElement (exported tagField)) xs []
      | VMap kvs \<Rightarrow>
          if mandatory (jsonTag tagField) \<and> length kvs = 0
          then Inr [ErrMandatoryUnit parent (fieldName tagField)]
          else appendAll (\<lambda>kv. checkElement (exported tagField) (snd kv)) kvs []
      | _ \<Rightarrow> Inr [])"
| "checkElement canInterface mValue =
     (if canInterface then
        (case mValue of
           VInterface None \<Rightarrow> Inl NilDereference
         | VInterface (Some obj) \<Rightarrow> checkMandatory obj
         | _ \<Rightarrow> checkMandatory mValue)
      else Inr [])"

declare checkMandatory.simps [simp del]
declare checkMandatoryUnit.simps [simp del]
declare checkElement.simps [simp del]

definition checkMandatoryFields :: "world \<Rightarrow> Spec \<Rightarrow> gostring \<Rightarrow> fault + verr list" where
  "checkMandatoryFields W spec rootfs = checkMandatory (reflectSpec W spec)"

section \<open>The validation pipeline\<close>

text \<open>
  The action of the \<^verbatim>\<open>validate\<close> command from the point where the document is parsed
  and the root path resolved. A check that cannot panic is lifted with \<open>returns\<close>.
\<close>

type_synonym configCheck = "Spec \<Rightarrow> gostring \<Rightarrow> fault + verr list"

definition returns :: "(Spec \<Rightarrow> gostring \<Rightarrow> verr list) \<Rightarrow> configCheck" where
  "returns check spec rootfs = Inr (check spec rootfs)"

definition checks :: "world \<Rightarrow> configCheck list" where
  "checks W =
     [checkMandatoryFields W,
      returns checkSemVer,
      returns checkPlatform,
      returns (checkProcess W),
      returns checkLinux,
      checkHooks W]"

text \<open>The inner loop: each error is logged and sets \<^verbatim>\<open>ret = 1\<close>.\<close>

fun logErrors :: "verr list \<Rightarrow> verr list \<times> int \<Rightarrow> verr list \<times> int" where
  "logErrors [] st = st"
| "logErrors (err # errs) (logged, ret) = logErrors errs (logged @ [err], 1)"

text \<open>
  The outer loop. A panic in a check leaves the loop with what was logged before; the
  errors the panicking check had collected are lost with it.
\<close>

fun runChecks ::
  "configCheck list \<Rightarrow> Spec \<Rightarrow> gostring \<Rightarrow> verr list \<times> int \<Rightarrow> fault option \<times> verr list \<times> int" where
  "runChecks [] spec rootfsPath st = (None, st)"
| "runChecks (check # rest) spec rootfsPath st =
     (case check spec rootfsPath of
        Inl p \<Rightarrow> (Some p, st)
      | Inr errs \<Rightarrow> runChecks rest spec rootfsPath (logErrors errs st))"

text \<open>
  \<^item> \<open>logged\<close>: the errors written to the log, in order;
  \<^item> \<open>ret\<close>: the variable \<^verbatim>\<open>ret\<close> when the loop is left;
  \<^item> \<open>panicked\<close>: the panic that ended the run, if any;
  \<^item> \<open>succeeded\<close>: whether "Bundle validation succeeded." is logged;
  \<^item> \<open>exitStatus\<close>: the argument of the deferred \<^verbatim>\<open>os.Exit(ret)\<close>, which Go evaluates at
    the \<^verbatim>\<open>defer\<close> statement, before the loop; the deferred call also runs when a check
    panics.
\<close>

record run =
  logged :: "verr list"
  ret :: int
  panicked :: "fault option"
  succeeded :: bool
  exitStatus :: int

definition bundleValidate :: "world \<Rightarrow> Spec \<Rightarrow> gostring \<Rightarrow> run" where
  "bundleValidate W spec rootfsPath =
     (let ret0 = 0;
          deferred = ret0;
          (p, lg, ret1) = runChecks (checks W) spec rootfsPath ([], ret0)
      in \<lparr>logged = lg, ret = ret1, panicked = p,
          succeeded = (p = None \<and> ret1 = 0), exitStatus = deferred\<rparr>)"

section \<open>Notions the properties are stated with\<close>

text \<open>
  The language of a regular expression, to say what \<open>Match\<close> decides: \<open>repeated A\<close>
  is one or more words of \<open>A\<close> in a row.
\<close>

inductive_set repeated :: "gostring set \<Rightarrow> gostring set" for A :: "gostring set" where
  one: "u \<in> A \<Longrightarrow> u \<in> repeated A"
| more: "u \<in> A \<Longrightarrow> v \<in> repeated A \<Longrightarrow> u @ v \<in> repeated A"

fun lang :: "regexp \<Rightarrow> gostring set" where
  "lang NoMatch = {}"
| "lang EmptyMatch = {[]}"
| "lang (Literal a) = {[a]}"
| "lang Digit = {[c] | c. 48 \<le> c \<and> c \<le> 57}"
| "lang (Concat r s) = {u @ v | u v. u \<in> lang r \<and> v \<in> lang s}"
| "lang (Alternate r s) = lang r \<union> lang s"
| "lang (Quest r) = insert [] (lang r)"
| "lang (Plus r) = repeated (lang r)"

text \<open>A possibly empty run of ASCII digits.\<close>

definition digits :: "gostring \<Rightarrow> bool" where
  "digits s = list_all (\<lambda>c. 48 \<le> c \<and> c \<le> 57) s"

text \<open>The architectures the switch of \<^verbatim>\<open>checkSeccomp\<close> names, in its order.\<close>

definition recognizedArchs :: "gostring list" where
  "recognizedArchs =
     [ArchX86, ArchX86_64, ArchX32, ArchARM, ArchAARCH64, ArchMIPS, ArchMIPS64, ArchMIPS64N32,
      ArchMIPSEL, ArchMIPSEL64, ArchMIPSEL64N32]"

text \<open>The architectures the specification lists for \<^verbatim>\<open>linux\<close>.\<close>

definition linuxArchs :: "gostring list" where
  "linuxArchs = [S ''386'', S ''amd64'', S ''arm'', S ''arm64'', S ''ppc64'', S ''ppc64le'',
                 S ''mips64'', S ''mips64le'']"

text \<open>
  What \<^verbatim>\<open>checkLinux\<close> reports before and after its hostname check: the errors of the
  two mapping lists and of the namespaces, and those of the devices, the seccomp profile
  and the propagation mode.
\<close>

definition linuxHead :: "Spec \<Rightarrow> verr list" where
  "linuxHead spec =
     (if length (UIDMappings (Linux spec)) > 5 then [ErrUIDMappings] else [])
     @ (if length (GIDMappings (Linux spec)) > 5 then [ErrGIDMappings] else [])
     @ map ErrNamespace (filter (\<lambda>ns. \<not> namespaceValid ns) (Namespaces (Linux spec)))"

definition linuxTail :: "Spec \<Rightarrow> verr list" where
  "linuxTail spec =
     map ErrDevice (filter (\<lambda>d. \<not> deviceValid d) (Devices (Linux spec)))
     @ (case Seccomp (Linux spec) of None \<Rightarrow> [] | Some s \<Rightarrow> checkSeccomp s)
     @ (if rootfsPropagationValid (RootfsPropagation (Linux spec)) then []
        else [ErrRootfsPropagation])"

text \<open>\<^verbatim>\<open>reflect.Value.Kind\<close>, with the integer kinds of one signedness taken together.\<close>

datatype kind = KBool | KInt | KUint | KFloat | KString | KPtr | KSlice | KMap | KStruct
  | KInterface | KOther

fun Kind :: "gval \<Rightarrow> kind" where
  "Kind (VBool b) = KBool"
| "Kind (VInt i) = KInt"
| "Kind (VUint n) = KUint"
| "Kind (VFloat x) = KFloat"
| "Kind (VString s) = KString"
| "Kind (VNilPtr e) = KPtr"
| "Kind (VPtr p) = KPtr"
| "Kind (VSlice xs) = KSlice"
| "Kind (VMap kvs) = KMap"
| "Kind (VStruct name fs) = KStruct"
| "Kind (VInterface x) = KInterface"
| "Kind VOpaque = KOther"

text \<open>The errors of the walker.\<close>

fun isMandatoryError :: "verr \<Rightarrow> bool" where
  "isMandatoryError (ErrMandatoryUnit parent name) = True"
| "isMandatoryError (ErrMandatoryPointer parent name) = True"
| "isMandatoryError e = False"

text \<open>
  A document for the examples: a Linux container with a hostname, a \<^verbatim>\<open>pid\<close>
  namespace and no \<^verbatim>\<open>uts\<close> namespace.
\<close>

definition exampleSpec :: Spec where
  "exampleSpec =
     \<lparr>Version = S ''1.0.0'',
      Platform = \<lparr>OS = S ''linux'', Arch = S ''amd64''\<rparr>,
      Process = \<lparr>Cwd = S ''/'', Env = [S ''PATH=/usr/bin''], Capabilities = [], Rlimits = [],
                 ApparmorProfile = []\<rparr>,
      Hostname = S ''myhost'',
      Hooks = \<lparr>Prestart = [], Poststart = [], Poststop = []\<rparr>,
      Linux = \<lparr>UIDMappings = [], GIDMappings = [],
               Namespaces = [\<lparr>nsType = S ''pid'', nsPath = []\<rparr>], Devices = [],
               Seccomp = None, RootfsPropagation = []\<rparr>\<rparr>"

section \<open>Literals and loops\<close>

lemma S_simps: "S [] = []" "S (c # cs) = of_char c # S cs"
  by (simp_all add: S_def)

lemma appendInvalid_eq:
  "appendInvalid valid mk xs errs = errs @ map mk (filter (\<lambda>x. \<not> valid x) xs)"
  by (induction xs arbitrary: errs) auto

section \<open>Devices\<close>

text \<open>
  C5, as the claim states it, fails: a device of kind \<^verbatim>\<open>p\<close> whose major number is
  \<^verbatim>\<open>-1\<close>, not zero, is valid, because the code rejects kind \<^verbatim>\<open>p\<close> only for a number
  above zero.
\<close>

theorem deviceValid_pipe_negative_major:
  "deviceValid \<lparr>devPath = S ''/dev/fifo'', devType = S ''p'', Major = - 1, Minor = 0\<rparr>
   \<and> Major \<lparr>devPath = S ''/dev/fifo'', devType = S ''p'', Major = - 1, Minor = 0\<rparr> \<noteq> 0"
  by (simp add: deviceValid_def S_simps)

text \<open>
  C5 (amended): a device is valid if and only if its kind is \<^verbatim>\<open>b\<close> or \<^verbatim>\<open>c\<close>, or
  \<^verbatim>\<open>u\<close> with major and minor both strictly positive, or \<^verbatim>\<open>p\<close> with neither major
  nor minor strictly positive. Kind \<^verbatim>\<open>u\<close> with major 0 is rejected, kind \<^verbatim>\<open>p\<close> with
  major 0 and minor 0 is accepted, kind \<^verbatim>\<open>p\<close> with major 5 is rejected.
\<close>

theorem deviceValid_cases:
  "(deviceValid d \<longleftrightarrow>
      devType d = S ''b'' \<or> devType d = S ''c''
      \<or> (devType d = S ''u'' \<and> 0 < sint (Major d) \<and> 0 < sint (Minor d))
      \<or> (devType d = S ''p'' \<and> sint (Major d) \<le> 0 \<and> sint (Minor d) \<le> 0))
   \<and> \<not> deviceValid \<lparr>devPath = p, devType = S ''u'', Major = 0, Minor = mi\<rparr>
   \<and> deviceValid \<lparr>devPath = p, devType = S ''p'', Major = 0, Minor = 0\<rparr>
   \<and> \<not> deviceValid \<lparr>devPath = p, devType = S ''p'', Major = 5, Minor = mi\<rparr>"
  by (auto simp add: deviceValid_def S_simps)

section \<open>Hooks verified on the host\<close>

text \<open>
  C2 fails on the code. With the verification of hooks on the host switched on and a
  first hook whose path \<^verbatim>\<open>os.Stat\<close> cannot find (error 2, no such file), the hooks
  checker panics at \<^verbatim>\<open>fi.Mode()\<close>: it returns no error list, and the hooks after the
  missing one are never checked.
\<close>

theorem checkEventHooks_missing_hook_panics:
  "checkEventHooks (W\<lparr>hooksCheck := True, os_Stat := (\<lambda>p. Inl 2)\<rparr>) hookType
     (\<lparr>hookPath = S ''/missing'', hookArgs = [], hookEnv = []\<rparr> # hooks) = Inl NilDereference"
  by (simp add: checkEventHooks_def checkEventHooks_hook_def Mode_def)

text \<open>Without the verification on the host the hooks checker always returns.\<close>

lemma checkEventHooks_returns:
  "\<not> hooksCheck W \<Longrightarrow> \<exists>errs. checkEventHooks_range W t hooks errs0 = Inr errs"
  by (induction hooks arbitrary: errs0) (auto simp add: checkEventHooks_hook_def Let_def)

lemma checkHooks_returns: "\<not> hooksCheck W \<Longrightarrow> \<exists>errs. checkHooks W spec rootfs = Inr errs"
proof -
  assume h: "\<not> hooksCheck W"
  obtain e1 where "checkEventHooks W (S ''pre-start'') (Prestart (Hooks spec)) = Inr e1"
    using checkEventHooks_returns [OF h] unfolding checkEventHooks_def by blast
  moreover obtain e2 where "checkEventHooks W (S ''post-start'') (Poststart (Hooks spec)) = Inr e2"
    using checkEventHooks_returns [OF h] unfolding checkEventHooks_def by blast
  moreover obtain e3 where "checkEventHooks W (S ''post-stop'') (Poststop (Hooks spec)) = Inr e3"
    using checkEventHooks_returns [OF h] unfolding checkEventHooks_def by blast
  ultimately show ?thesis by (simp add: checkHooks_def)
qed

lemma checkHooks_missing:
  "checkHooks (W\<lparr>hooksCheck := True, os_Stat := (\<lambda>p. Inl 2)\<rparr>)
     (spec\<lparr>Hooks := \<lparr>Prestart = \<lparr>hookPath = S ''/missing'', hookArgs = [], hookEnv = []\<rparr> # hooks,
        Poststart = ps, Poststop = pp\<rparr>\<rparr>) rootfs = Inl NilDereference"
  by (simp add: checkHooks_def checkEventHooks_def checkEventHooks_hook_def Mode_def)

text \<open>
  With the verification on the host on, the hooks checker panics exactly when
  \<^verbatim>\<open>os.Stat\<close> fails for one of the hooks.
\<close>

lemma hook_panics_iff:
  "hooksCheck W \<Longrightarrow>
     (checkEventHooks_hook W t hook errs0 = Inl NilDereference)
       \<longleftrightarrow> (\<exists>e. os_Stat W (hookPath hook) = Inl e)"
  by (auto simp add: checkEventHooks_hook_def Let_def Mode_def split: sum.splits)

lemma hook_fault: "checkEventHooks_hook W t hook errs0 = Inl f \<Longrightarrow> f = NilDereference"
  by (auto simp add: checkEventHooks_hook_def Let_def Mode_def split: sum.splits if_splits)

lemma range_panics_iff:
  "hooksCheck W \<Longrightarrow>
     (checkEventHooks_range W t hooks errs0 = Inl NilDereference)
       \<longleftrightarrow> (\<exists>hook\<in>set hooks. \<exists>e. os_Stat W (hookPath hook) = Inl e)"
proof (induction hooks arbitrary: errs0)
  case Nil
  then show ?case by simp
next
  case (Cons hook hooks)
  show ?case
  proof (cases "checkEventHooks_hook W t hook errs0")
    case (Inl f)
    then have "f = NilDereference" by (rule hook_fault)
    with Inl hook_panics_iff [OF Cons.prems, of t hook errs0] show ?thesis by auto
  next
    case (Inr errs')
    with hook_panics_iff [OF Cons.prems, of t hook errs0]
    have "\<not> (\<exists>e. os_Stat W (hookPath hook) = Inl e)" by simp
    with Inr Cons.IH [OF Cons.prems, of errs'] show ?thesis by simp
  qed
qed

lemma checkEventHooks_panics_iff:
  "hooksCheck W \<Longrightarrow>
     (checkEventHooks W t hooks = Inl NilDereference)
       \<longleftrightarrow> (\<exists>hook\<in>set hooks. \<exists>e. os_Stat W (hookPath hook) = Inl e)"
  unfolding checkEventHooks_def by (rule range_panics_iff)

section \<open>Environment entries\<close>

lemma Split_not_Nil: "Split s sep \<noteq> []"
  by (induction s) (auto split: list.splits)

lemma Split_first: "Split s sep ! 0 = takeWhile (\<lambda>c. c \<noteq> sep) s"
  by (induction s) (auto split: list.splits simp: Split_not_Nil)

lemma Split_length: "length (Split s sep) < 2 \<longleftrightarrow> sep \<notin> set s"
proof (induction s)
  case Nil
  show ?case by simp
next
  case (Cons c cs)
  have "0 < length (Split cs sep)" using Split_not_Nil by blast
  with Cons show ?case
    by (cases "Split cs sep") auto
qed

lemma envValid_range_iff:
  "envValid_range U k \<longleftrightarrow> (\<forall>ch\<in>set k. IsDigit U ch \<or> IsLetter U ch \<or> ch = 95)"
  by (induction k) auto

text \<open>The entry is judged by the text before its first \<^verbatim>\<open>=\<close>.\<close>

lemma envValid_iff:
  "envValid U env \<longleftrightarrow>
     61 \<in> set env \<and> envValid_range U (TrimSpace U (takeWhile (\<lambda>c. c \<noteq> 61) env))"
  by (simp add: envValid_def Let_def Split_first Split_length)

lemma first_separator:
  "sep \<in> set s \<longleftrightarrow> (\<exists>k v. s = k @ sep # v \<and> sep \<notin> set k)"
  by (metis split_list_first in_set_conv_decomp)

lemma takeWhile_key: "sep \<notin> set k \<Longrightarrow> takeWhile (\<lambda>c. c \<noteq> sep) (k @ sep # v) = k"
  by (induction k) auto

lemma envValid_key:
  "envValid U env \<longleftrightarrow>
     (\<exists>key val. env = key @ 61 # val \<and> 61 \<notin> set key
        \<and> (\<forall>ch\<in>set (TrimSpace U key). IsDigit U ch \<or> IsLetter U ch \<or> ch = 95))"
  (is "?l \<longleftrightarrow> ?r")
proof
  assume ?l
  then have m: "61 \<in> set env"
    and r: "envValid_range U (TrimSpace U (takeWhile (\<lambda>c. c \<noteq> 61) env))"
    by (simp_all add: envValid_iff)
  from m obtain k v where e: "env = k @ 61 # v" "61 \<notin> set k"
    using first_separator by metis
  with r show ?r
    by (auto simp add: takeWhile_key envValid_range_iff)
next
  assume ?r
  then show ?l
    by (auto simp add: envValid_iff takeWhile_key envValid_range_iff)
qed

lemma checkProcess_env_errors:
  "ErrEnv env \<in> set (checkProcess W spec rootfs)
     \<longleftrightarrow> env \<in> set (Env (Process spec)) \<and> \<not> envValid (unicode W) env"
  by (auto simp add: checkProcess_def Let_def appendInvalid_eq split: sum.splits)

lemma hook_env_errors:
  "checkEventHooks_hook W t hook errs0 = Inr errs \<Longrightarrow>
     (ErrHookEnv env p \<in> set errs \<longleftrightarrow>
        ErrHookEnv env p \<in> set errs0
        \<or> (hookPath hook = p \<and> env \<in> set (hookEnv hook) \<and> \<not> envValid (unicode W) env))"
  by (auto simp add: checkEventHooks_hook_def Let_def appendInvalid_eq Mode_def
      split: sum.splits if_splits)

lemma range_env_errors:
  "checkEventHooks_range W t hooks errs0 = Inr errs \<Longrightarrow>
     (ErrHookEnv env p \<in> set errs \<longleftrightarrow>
        ErrHookEnv env p \<in> set errs0
        \<or> (\<exists>hook\<in>set hooks. hookPath hook = p \<and> env \<in> set (hookEnv hook)
              \<and> \<not> envValid (unicode W) env))"
proof (induction hooks arbitrary: errs0)
  case Nil
  then show ?case by simp
next
  case (Cons hook hooks)
  from Cons.prems obtain e1 where h: "checkEventHooks_hook W t hook errs0 = Inr e1"
    and r: "checkEventHooks_range W t hooks e1 = Inr errs"
    by (auto split: sum.splits)
  show ?case
    using Cons.IH [OF r] hook_env_errors [OF h, of env p] by auto
qed

text \<open>
  C3, as the claim states it, fails: the entry \<^verbatim>\<open>=value\<close>, whose key is empty, is
  accepted.
\<close>

theorem envValid_empty_key:
  "envValid asciiOnly (S ''=value'') \<and> takeWhile (\<lambda>c. c \<noteq> 61) (S ''=value'') = []"
  by (simp add: envValid_iff S_simps TrimSpace_def)

text \<open>
  C3 (amended): an environment entry is accepted if and only if it contains a \<^verbatim>\<open>=\<close>
  and the text before the first \<^verbatim>\<open>=\<close>, with the white space at its two ends trimmed,
  consists only of letters, digits and underscores; that text may be empty. The process
  checker reports exactly the entries of the process environment that are not accepted,
  and the hooks checker, when it returns, exactly those of the hooks' environments. The
  entries \<^verbatim>\<open>=value\<close>, \<^verbatim>\<open>PATH=/usr/bin\<close> and \<^verbatim>\<open>KEY_1=value\<close> are accepted,
  \<^verbatim>\<open>KEY 1=value\<close> is not.
\<close>

theorem envValid_accepts:
  "(envValid U env \<longleftrightarrow>
      (\<exists>key val. env = key @ 61 # val \<and> 61 \<notin> set key
         \<and> (\<forall>ch\<in>set (TrimSpace U key). IsDigit U ch \<or> IsLetter U ch \<or> ch = 95)))
   \<and> (ErrEnv env \<in> set (checkProcess W spec rootfs)
        \<longleftrightarrow> env \<in> set (Env (Process spec)) \<and> \<not> envValid (unicode W) env)
   \<and> (checkEventHooks W hookType hooks = Inr errs \<longrightarrow>
        (ErrHookEnv env p \<in> set errs
           \<longleftrightarrow> (\<exists>hook\<in>set hooks. hookPath hook = p \<and> env \<in> set (hookEnv hook)
                  \<and> \<not> envValid (unicode W) env)))
   \<and> envValid U (S ''=value'')
   \<and> envValid U (S ''PATH=/usr/bin'')
   \<and> \<not> envValid U (S ''KEY 1=value'')
   \<and> envValid U (S ''KEY_1=value'')"
proof (intro conjI impI)
  show "envValid U env \<longleftrightarrow>
      (\<exists>key val. env = key @ 61 # val \<and> 61 \<notin> set key
         \<and> (\<forall>ch\<in>set (TrimSpace U key). IsDigit U ch \<or> IsLetter U ch \<or> ch = 95))"
    by (rule envValid_key)
  show "ErrEnv env \<in> set (checkProcess W spec rootfs)
        \<longleftrightarrow> env \<in> set (Env (Process spec)) \<and> \<not> envValid (unicode W) env"
    by (rule checkProcess_env_errors)
  show "ErrHookEnv env p \<in> set errs
           \<longleftrightarrow> (\<exists>hook\<in>set hooks. hookPath hook = p \<and> env \<in> set (hookEnv hook)
                  \<and> \<not> envValid (unicode W) env)"
    if "checkEventHooks W hookType hooks = Inr errs"
    using range_env_errors [of W hookType hooks "[]" errs env p] that
    by (simp add: checkEventHooks_def)
  show "envValid U (S ''=value'')"
    by (simp add: envValid_iff S_simps TrimSpace_def)
  show "envValid U (S ''PATH=/usr/bin'')"
    by (simp add: envValid_iff S_simps TrimSpace_def IsSpace_def IsDigit_def IsLetter_def)
  show "\<not> envValid U (S ''KEY 1=value'')"
    by (simp add: envValid_iff S_simps TrimSpace_def IsSpace_def IsDigit_def IsLetter_def)
  show "envValid U (S ''KEY_1=value'')"
    by (simp add: envValid_iff S_simps TrimSpace_def IsSpace_def IsDigit_def IsLetter_def)
qed

text \<open>
  The amended C3 at the entry \<^verbatim>\<open>PATH=/usr/bin\<close>, and at a hooks checker that returns:
  with the verification on the host off, a hook with the environment \<^verbatim>\<open>=value\<close> and
  \<^verbatim>\<open>KEY 1=value\<close> is reported for the second entry and not for the first.
\<close>

theorem envValid_accepts_witness:
  "(\<exists>key val. S ''PATH=/usr/bin'' = key @ 61 # val \<and> 61 \<notin> set key
       \<and> (\<forall>ch\<in>set (TrimSpace asciiOnly key).
             IsDigit asciiOnly ch \<or> IsLetter asciiOnly ch \<or> ch = 95))
   \<and> (\<forall>W. checkEventHooks (W\<lparr>hooksCheck := False\<rparr>) (S ''pre-start'')
            [\<lparr>hookPath = S ''/bin/hook'', hookArgs = [],
              hookEnv = [S ''=value'', S ''KEY 1=value'']\<rparr>]
          = Inr [ErrHookEnv (S ''KEY 1=value'') (S ''/bin/hook'')])
   \<and> (\<forall>W :: world. ErrHookEnv (S ''=value'') (S ''/bin/hook'')
            \<notin> set [ErrHookEnv (S ''KEY 1=value'') (S ''/bin/hook'')]
          \<and> envValid (unicode W) (S ''=value''))"
proof (intro conjI allI)
  show "\<exists>key val. S ''PATH=/usr/bin'' = key @ 61 # val \<and> 61 \<notin> set key
       \<and> (\<forall>ch\<in>set (TrimSpace asciiOnly key).
             IsDigit asciiOnly ch \<or> IsLetter asciiOnly ch \<or> ch = 95)"
    using envValid_accepts [of asciiOnly "S ''PATH=/usr/bin''"] by blast
  fix W :: world
  let ?W = "W\<lparr>hooksCheck := False\<rparr>"
  let ?hook = "\<lparr>hookPath = S ''/bin/hook'', hookArgs = [],
                hookEnv = [S ''=value'', S ''KEY 1=value'']\<rparr>"
  have v: "envValid (unicode W) (S ''=value'')" "\<not> envValid (unicode W) (S ''KEY 1=value'')"
    using envValid_accepts [of "unicode W"] by blast+
  show r: "checkEventHooks ?W (S ''pre-start'') [?hook]
           = Inr [ErrHookEnv (S ''KEY 1=value'') (S ''/bin/hook'')]"
    using v by (simp add: checkEventHooks_def checkEventHooks_hook_def IsAbs_def S_simps)
  have "ErrHookEnv (S ''=value'') (S ''/bin/hook'')
          \<in> set [ErrHookEnv (S ''KEY 1=value'') (S ''/bin/hook'')]
        \<longleftrightarrow> (\<exists>hook\<in>set [?hook]. hookPath hook = S ''/bin/hook''
               \<and> S ''=value'' \<in> set (hookEnv hook) \<and> \<not> envValid (unicode ?W) (S ''=value''))"
    using envValid_accepts [where W = ?W and hookType = "S ''pre-start''" and hooks = "[?hook]"
        and errs = "[ErrHookEnv (S ''KEY 1=value'') (S ''/bin/hook'')]" and env = "S ''=value''"
        and p = "S ''/bin/hook''"] r
    by blast
  then show "ErrHookEnv (S ''=value'') (S ''/bin/hook'')
            \<notin> set [ErrHookEnv (S ''KEY 1=value'') (S ''/bin/hook'')]"
    using v by simp
  show "envValid (unicode W) (S ''=value'')" by (rule v)
qed

text \<open>White space around the key does not count.\<close>

lemma dropWhile_all: "(\<forall>x\<in>set xs. P x) \<Longrightarrow> dropWhile P xs = []"
  by (induction xs) auto

lemma TrimSpace_surrounded:
  assumes "\<forall>c\<in>set pre. IsSpace U c" and "\<forall>c\<in>set post. IsSpace U c"
  shows "TrimSpace U (pre @ key @ post) = TrimSpace U key"
proof -
  have 1: "dropWhile (IsSpace U) (pre @ key @ post) = dropWhile (IsSpace U) (key @ post)"
    using assms(1) by (simp add: dropWhile_append2)
  have 2: "dropWhile (IsSpace U) (rev (dropWhile (IsSpace U) (key @ post)))
           = dropWhile (IsSpace U) (rev (dropWhile (IsSpace U) key))"
  proof (cases "\<forall>c\<in>set key. IsSpace U c")
    case True
    with assms(2) have "\<forall>x\<in>set (key @ post). IsSpace U x" by auto
    then have "dropWhile (IsSpace U) (key @ post) = []" by (rule dropWhile_all)
    moreover have "dropWhile (IsSpace U) key = []" using True by (rule dropWhile_all)
    ultimately show ?thesis by (simp only:)
  next
    case False
    then have "dropWhile (IsSpace U) (key @ post) = dropWhile (IsSpace U) key @ post"
      by (auto simp add: dropWhile_append)
    moreover have "dropWhile (IsSpace U) (rev post @ rev (dropWhile (IsSpace U) key))
                   = dropWhile (IsSpace U) (rev (dropWhile (IsSpace U) key))"
      using assms(2) by (intro dropWhile_append2) simp
    ultimately show ?thesis by simp
  qed
  show ?thesis by (simp add: TrimSpace_def 1 2)
qed

lemma space_not_separator: "IsSpace U c \<Longrightarrow> c \<noteq> 61"
  by (auto simp add: IsSpace_def)

text \<open>A key with no white space at either end is left as it is.\<close>

lemma TrimSpace_trimmed:
  assumes "key = [] \<or> (\<not> IsSpace U (hd key) \<and> \<not> IsSpace U (last key))"
  shows "TrimSpace U key = key"
proof (cases key)
  case Nil
  then show ?thesis by (simp add: TrimSpace_def)
next
  case (Cons c cs)
  with assms have h: "\<not> IsSpace U (hd key)" and l: "\<not> IsSpace U (last key)" by auto
  from Cons h have 1: "dropWhile (IsSpace U) key = key" by simp
  from Cons have "rev key \<noteq> []" by simp
  then obtain d ds where r: "rev key = d # ds" by (cases "rev key") auto
  from Cons have "hd (rev key) = last key" by (simp add: hd_rev)
  with r l have "\<not> IsSpace U d" by simp
  with r have 2: "dropWhile (IsSpace U) (rev key) = rev key" by simp
  show ?thesis by (simp add: TrimSpace_def 1 2)
qed

text \<open>
  C9: the key is trimmed at its two ends, and then its characters are checked. White
  space before and after the key changes nothing: the entry is valid exactly when the
  entry without it is. When the key itself neither starts nor ends with white space,
  the entry is valid exactly when every character of the key is a letter, a digit or
  an underscore, so white space inside the key is not trimmed and makes the entry
  invalid. The entries \<^verbatim>\<open> KEY=value\<close> and \<^verbatim>\<open>KEY =value\<close> are accepted, although their
  untrimmed keys fail the check of the characters; \<^verbatim>\<open>KEY 1=value\<close>,
  \<^verbatim>\<open> K Y =value\<close> and \<^verbatim>\<open>KEY\<close> are rejected.
\<close>

theorem envValid_trims_key:
  assumes "\<forall>c\<in>set pre. IsSpace U c" and "\<forall>c\<in>set post. IsSpace U c" and "61 \<notin> set key"
  shows "envValid U (pre @ key @ post @ 61 # val) = envValid U (key @ 61 # val)
         \<and> (key = [] \<or> (\<not> IsSpace U (hd key) \<and> \<not> IsSpace U (last key)) \<longrightarrow>
               (envValid U (pre @ key @ post @ 61 # val)
                  \<longleftrightarrow> (\<forall>ch\<in>set key. IsDigit U ch \<or> IsLetter U ch \<or> ch = 95)))
         \<and> envValid U (S '' KEY=value'') \<and> envValid U (S ''KEY =value'')
         \<and> \<not> envValid_range U (S '' KEY'') \<and> \<not> envValid_range U (S ''KEY '')
         \<and> \<not> envValid U (S ''KEY 1=value'') \<and> \<not> envValid U (S '' K Y =value'')
         \<and> \<not> envValid U (S ''KEY'')"
proof (intro conjI impI)
  have k: "61 \<notin> set (pre @ key @ post)"
    using assms space_not_separator by auto
  have t1: "takeWhile (\<lambda>c. c \<noteq> 61) ((pre @ key @ post) @ 61 # val) = pre @ key @ post"
    using k by (rule takeWhile_key)
  have t2: "takeWhile (\<lambda>c. c \<noteq> 61) (key @ 61 # val) = key"
    using assms(3) by (rule takeWhile_key)
  have v: "envValid U (pre @ key @ post @ 61 # val) \<longleftrightarrow> envValid_range U (TrimSpace U key)"
    using t1 TrimSpace_surrounded [OF assms(1,2)] by (simp add: envValid_iff)
  show "envValid U (pre @ key @ post @ 61 # val) = envValid U (key @ 61 # val)"
    using v t2 by (simp add: envValid_iff)
  show "envValid U (pre @ key @ post @ 61 # val)
          \<longleftrightarrow> (\<forall>ch\<in>set key. IsDigit U ch \<or> IsLetter U ch \<or> ch = 95)"
    if "key = [] \<or> (\<not> IsSpace U (hd key) \<and> \<not> IsSpace U (last key))"
    using v TrimSpace_trimmed [OF that] by (simp add: envValid_range_iff)
  show "envValid U (S '' KEY=value'')"
    by (simp add: envValid_iff S_simps TrimSpace_def IsSpace_def IsDigit_def IsLetter_def)
  show "envValid U (S ''KEY =value'')"
    by (simp add: envValid_iff S_simps TrimSpace_def IsSpace_def IsDigit_def IsLetter_def)
  show "\<not> envValid_range U (S '' KEY'')"
    by (simp add: S_simps IsDigit_def IsLetter_def)
  show "\<not> envValid_range U (S ''KEY '')"
    by (simp add: S_simps IsDigit_def IsLetter_def)
  show "\<not> envValid U (S ''KEY 1=value'')"
    by (simp add: envValid_iff S_simps TrimSpace_def IsSpace_def IsDigit_def IsLetter_def)
  show "\<not> envValid U (S '' K Y =value'')"
    by (simp add: envValid_iff S_simps TrimSpace_def IsSpace_def IsDigit_def IsLetter_def)
  show "\<not> envValid U (S ''KEY'')"
    by (simp add: envValid_iff S_simps)
qed

text \<open>
  C9 at the entries \<^verbatim>\<open> KEY =value\<close>, accepted, and \<^verbatim>\<open> K Y =value\<close>, rejected, each
  with a space on each side of the key.
\<close>

theorem envValid_trims_key_witness:
  "envValid asciiOnly (S '' KEY =value'') = envValid asciiOnly (S ''KEY=value'')
   \<and> envValid asciiOnly (S '' KEY =value'')
   \<and> \<not> envValid asciiOnly (S '' K Y =value'')"
proof -
  have a: "\<forall>c\<in>set [32]. IsSpace asciiOnly c" by (simp add: IsSpace_def)
  have k: "61 \<notin> set (S ''KEY'')" by (simp add: S_simps)
  have k2: "61 \<notin> set (S ''K Y'')" by (simp add: S_simps)
  have e: "S ''KEY'' = [] \<or> (\<not> IsSpace asciiOnly (hd (S ''KEY'')) \<and> \<not> IsSpace asciiOnly (last (S ''KEY'')))"
    by (simp add: S_simps IsSpace_def)
  have e2: "S ''K Y'' = [] \<or> (\<not> IsSpace asciiOnly (hd (S ''K Y'')) \<and> \<not> IsSpace asciiOnly (last (S ''K Y'')))"
    by (simp add: S_simps IsSpace_def)
  note t = envValid_trims_key [OF a a k, of "S ''value''"]
  note t2 = envValid_trims_key [OF a a k2, of "S ''value''"]
  from t have 1: "envValid asciiOnly ([32] @ S ''KEY'' @ [32] @ 61 # S ''value'')
        = envValid asciiOnly (S ''KEY'' @ 61 # S ''value'')"
    by blast
  from t e have "envValid asciiOnly ([32] @ S ''KEY'' @ [32] @ 61 # S ''value'')
      \<longleftrightarrow> (\<forall>ch\<in>set (S ''KEY''). IsDigit asciiOnly ch \<or> IsLetter asciiOnly ch \<or> ch = 95)"
    by blast
  then have 2: "envValid asciiOnly ([32] @ S ''KEY'' @ [32] @ 61 # S ''value'')"
    by (simp add: S_simps IsDigit_def IsLetter_def)
  from t2 e2 have "envValid asciiOnly ([32] @ S ''K Y'' @ [32] @ 61 # S ''value'')
      \<longleftrightarrow> (\<forall>ch\<in>set (S ''K Y''). IsDigit asciiOnly ch \<or> IsLetter asciiOnly ch \<or> ch = 95)"
    by blast
  then have 3: "\<not> envValid asciiOnly ([32] @ S ''K Y'' @ [32] @ 61 # S ''value'')"
    by (simp add: S_simps IsDigit_def IsLetter_def)
  from 1 2 3 show ?thesis by (simp add: S_simps)
qed

section \<open>The version pattern\<close>

lemma repeated_Nil: "[] \<in> repeated A \<longleftrightarrow> [] \<in> A"
proof
  assume "[] \<in> repeated A"
  then show "[] \<in> A"
    by (induction "[] :: gostring" rule: repeated.induct) auto
qed (rule repeated.one)

lemma repeated_Cons:
  "c # w \<in> repeated A \<longleftrightarrow> (\<exists>u v. w = u @ v \<and> c # u \<in> A \<and> (v = [] \<or> v \<in> repeated A))"
proof
  assume "c # w \<in> repeated A"
  then show "\<exists>u v. w = u @ v \<and> c # u \<in> A \<and> (v = [] \<or> v \<in> repeated A)"
  proof (induction "c # w" arbitrary: w rule: repeated.induct)
    case one
    then show ?case by auto
  next
    case (more u v)
    show ?case
    proof (cases u)
      case Nil
      with more show ?thesis by auto
    next
      case (Cons a u')
      with more show ?thesis by auto
    qed
  qed
next
  assume "\<exists>u v. w = u @ v \<and> c # u \<in> A \<and> (v = [] \<or> v \<in> repeated A)"
  then obtain u v where w: "w = u @ v" and a: "c # u \<in> A" and v: "v = [] \<or> v \<in> repeated A"
    by blast
  from v show "c # w \<in> repeated A"
  proof
    assume "v = []"
    with w a show ?thesis by (simp add: repeated.one)
  next
    assume "v \<in> repeated A"
    with a have "(c # u) @ v \<in> repeated A" by (rule repeated.more)
    with w show ?thesis by simp
  qed
qed

lemma nullable_lang: "nullable r \<longleftrightarrow> [] \<in> lang r"
  by (induction r) (auto simp add: repeated_Nil)

lemma conc_Cons:
  "c # w \<in> {u @ v | u v. u \<in> A \<and> v \<in> B} \<longleftrightarrow>
     ([] \<in> A \<and> c # w \<in> B) \<or> (\<exists>u v. w = u @ v \<and> c # u \<in> A \<and> v \<in> B)"
proof
  assume "c # w \<in> {u @ v | u v. u \<in> A \<and> v \<in> B}"
  then obtain u v where uv: "c # w = u @ v" "u \<in> A" "v \<in> B" by blast
  show "([] \<in> A \<and> c # w \<in> B) \<or> (\<exists>u v. w = u @ v \<and> c # u \<in> A \<and> v \<in> B)"
  proof (cases u)
    case Nil
    with uv show ?thesis by simp
  next
    case (Cons a u')
    with uv have "w = u' @ v" "c # u' \<in> A" by simp_all
    with uv(3) show ?thesis by blast
  qed
next
  assume "([] \<in> A \<and> c # w \<in> B) \<or> (\<exists>u v. w = u @ v \<and> c # u \<in> A \<and> v \<in> B)"
  then show "c # w \<in> {u @ v | u v. u \<in> A \<and> v \<in> B}"
  proof
    assume "[] \<in> A \<and> c # w \<in> B"
    then have "c # w = [] @ (c # w) \<and> [] \<in> A \<and> c # w \<in> B" by simp
    then show ?thesis by blast
  next
    assume "\<exists>u v. w = u @ v \<and> c # u \<in> A \<and> v \<in> B"
    then obtain u v where "w = u @ v" "c # u \<in> A" "v \<in> B" by blast
    then have "c # w = (c # u) @ v \<and> c # u \<in> A \<and> v \<in> B" by simp
    then show ?thesis by blast
  qed
qed

text \<open>The derivative of a pattern by a character matches what is left after it.\<close>

lemma deriv_lang: "w \<in> lang (deriv c r) \<longleftrightarrow> c # w \<in> lang r"
proof (induction r arbitrary: w)
  case (Concat r s)
  have "c # w \<in> lang (Concat r s) \<longleftrightarrow>
      ([] \<in> lang r \<and> c # w \<in> lang s)
      \<or> (\<exists>u v. w = u @ v \<and> c # u \<in> lang r \<and> v \<in> lang s)"
    unfolding lang.simps by (rule conc_Cons)
  also have "\<dots> \<longleftrightarrow>
      (nullable r \<and> w \<in> lang (deriv c s))
      \<or> (\<exists>u v. w = u @ v \<and> u \<in> lang (deriv c r) \<and> v \<in> lang s)"
    by (simp only: Concat.IH nullable_lang)
  also have "\<dots> \<longleftrightarrow> w \<in> lang (deriv c (Concat r s))"
    by (cases "nullable r") auto
  finally show ?case by simp
next
  case (Plus r)
  have "c # w \<in> lang (Plus r) \<longleftrightarrow>
      (\<exists>u v. w = u @ v \<and> c # u \<in> lang r \<and> (v = [] \<or> v \<in> repeated (lang r)))"
    unfolding lang.simps by (rule repeated_Cons)
  also have "\<dots> \<longleftrightarrow>
      (\<exists>u v. w = u @ v \<and> u \<in> lang (deriv c r) \<and> (v = [] \<or> v \<in> repeated (lang r)))"
    by (simp only: Plus.IH)
  also have "\<dots> \<longleftrightarrow> w \<in> lang (deriv c (Plus r))"
    by auto
  finally show ?case by simp
qed auto

lemma Match_lang: "Match r s \<longleftrightarrow> s \<in> lang r"
  by (induction s arbitrary: r) (simp_all add: nullable_lang deriv_lang)

lemma repeated_digits:
  "s \<in> repeated {[c] | c. 48 \<le> c \<and> c \<le> 57} \<longleftrightarrow> s \<noteq> [] \<and> digits s"
proof
  assume "s \<in> repeated {[c] | c. 48 \<le> c \<and> c \<le> 57}"
  then show "s \<noteq> [] \<and> digits s"
    by (induction rule: repeated.induct) (auto simp add: digits_def)
next
  assume "s \<noteq> [] \<and> digits s"
  then show "s \<in> repeated {[c] | c. 48 \<le> c \<and> c \<le> 57}"
  proof (induction s)
    case Nil
    then show ?case by simp
  next
    case (Cons c cs)
    then have c: "[c] \<in> {[c] | c. 48 \<le> c \<and> c \<le> 57}" by (simp add: digits_def)
    show ?case
    proof (cases cs)
      case Nil
      with c show ?thesis by (simp add: repeated.one)
    next
      case (Cons d ds)
      with Cons.IH Cons.prems have "cs \<in> repeated {[c] | c. 48 \<le> c \<and> c \<le> 57}"
        by (simp add: digits_def)
      with c have "[c] @ cs \<in> repeated {[c] | c. 48 \<le> c \<and> c \<le> 57}"
        by (rule repeated.more)
      then show ?thesis by simp
    qed
  qed
qed

lemma segment_lang: "s \<in> lang (Quest (Plus Digit)) \<longleftrightarrow> digits s"
  using repeated_digits [of s] by (auto simp add: digits_def)

lemma Concat_lang:
  "s \<in> lang (Concat r t) \<longleftrightarrow> (\<exists>u v. s = u @ v \<and> u \<in> lang r \<and> v \<in> lang t)"
  by auto

lemma dot_segment_lang:
  "s \<in> lang (Concat (Literal 46) r) \<longleftrightarrow> (\<exists>v. s = 46 # v \<and> v \<in> lang r)"
  by auto

lemma semVer_lang:
  "s \<in> lang semVerPattern \<longleftrightarrow>
     (\<exists>a b c. s = a @ 46 # b @ 46 # c \<and> digits a \<and> digits b \<and> digits c)"
  unfolding semVerPattern_def
  apply (subst Concat_lang)
  apply (subst dot_segment_lang)
  apply (subst Concat_lang)
  apply (subst dot_segment_lang)
  apply (simp only: segment_lang)
  apply blast
  done

lemma Match_semVer:
  "Match semVerPattern v \<longleftrightarrow>
     (\<exists>a b c. v = a @ 46 # b @ 46 # c \<and> digits a \<and> digits b \<and> digits c)"
  by (simp only: Match_lang semVer_lang)

lemma checkSemVer_eq:
  "checkSemVer spec rootfs =
     (if \<exists>a b c. Version spec = a @ 46 # b @ 46 # c \<and> digits a \<and> digits b \<and> digits c
      then [] else [ErrVersion (Version spec)])"
proof (cases "Match semVerPattern (Version spec)")
  case True
  then have "checkSemVer spec rootfs = []" by (simp add: checkSemVer_def)
  with True show ?thesis by (simp only: Match_semVer if_True)
next
  case False
  then have "checkSemVer spec rootfs = [ErrVersion (Version spec)]" by (simp add: checkSemVer_def)
  with False show ?thesis by (simp only: Match_semVer if_False)
qed

lemma semVer_chars:
  assumes "Match semVerPattern v" and "c \<in> set v"
  shows "c = 46 \<or> (48 \<le> c \<and> c \<le> 57)"
proof -
  from assms(1) obtain a b d where "v = a @ 46 # b @ 46 # d" "digits a" "digits b" "digits d"
    unfolding Match_semVer by blast
  with assms(2) show ?thesis
    by (auto simp add: digits_def list_all_iff)
qed

text \<open>
  C6: the version checker accepts exactly the strings made of a run of digits, a dot
  (46), a run of digits, a dot and a run of digits, each run possibly empty, which are
  the strings the pattern \<^verbatim>\<open>^(\d+)?\.(\d+)?\.(\d+)?$\<close> matches, and reports one error for
  any other string. \<^verbatim>\<open>1.0.0\<close> and \<^verbatim>\<open>0.2.0\<close> are accepted; \<^verbatim>\<open>1.0\<close>, \<^verbatim>\<open>v1.0.0\<close> and
  \<^verbatim>\<open>1.0.0-rc1\<close> each produce an error.
\<close>

theorem checkSemVer_accepts:
  "checkSemVer spec rootfs =
     (if \<exists>a b c. Version spec = a @ 46 # b @ 46 # c \<and> digits a \<and> digits b \<and> digits c
      then [] else [ErrVersion (Version spec)])
   \<and> checkSemVer (spec\<lparr>Version := S ''1.0.0''\<rparr>) rootfs = []
   \<and> checkSemVer (spec\<lparr>Version := S ''0.2.0''\<rparr>) rootfs = []
   \<and> checkSemVer (spec\<lparr>Version := S ''1.0''\<rparr>) rootfs = [ErrVersion (S ''1.0'')]
   \<and> checkSemVer (spec\<lparr>Version := S ''v1.0.0''\<rparr>) rootfs = [ErrVersion (S ''v1.0.0'')]
   \<and> checkSemVer (spec\<lparr>Version := S ''1.0.0-rc1''\<rparr>) rootfs = [ErrVersion (S ''1.0.0-rc1'')]"
proof (intro conjI)
  show "checkSemVer spec rootfs =
     (if \<exists>a b c. Version spec = a @ 46 # b @ 46 # c \<and> digits a \<and> digits b \<and> digits c
      then [] else [ErrVersion (Version spec)])"
    by (rule checkSemVer_eq)
  show "checkSemVer (spec\<lparr>Version := S ''1.0.0''\<rparr>) rootfs = []"
    by (simp add: checkSemVer_def semVerPattern_def S_simps)
  show "checkSemVer (spec\<lparr>Version := S ''0.2.0''\<rparr>) rootfs = []"
    by (simp add: checkSemVer_def semVerPattern_def S_simps)
  show "checkSemVer (spec\<lparr>Version := S ''1.0''\<rparr>) rootfs = [ErrVersion (S ''1.0'')]"
    by (simp add: checkSemVer_def semVerPattern_def S_simps)
  have "(118::nat) \<in> set (S ''v1.0.0'')" by (simp add: S_simps)
  moreover have "\<not> ((118::nat) = 46 \<or> (48 \<le> (118::nat) \<and> (118::nat) \<le> 57))" by simp
  ultimately have "\<not> Match semVerPattern (S ''v1.0.0'')"
    using semVer_chars by blast
  then show "checkSemVer (spec\<lparr>Version := S ''v1.0.0''\<rparr>) rootfs = [ErrVersion (S ''v1.0.0'')]"
    by (simp add: checkSemVer_def)
  have "(45::nat) \<in> set (S ''1.0.0-rc1'')" by (simp add: S_simps)
  moreover have "\<not> ((45::nat) = 46 \<or> (48 \<le> (45::nat) \<and> (45::nat) \<le> 57))" by simp
  ultimately have "\<not> Match semVerPattern (S ''1.0.0-rc1'')"
    using semVer_chars by blast
  then show
    "checkSemVer (spec\<lparr>Version := S ''1.0.0-rc1''\<rparr>) rootfs = [ErrVersion (S ''1.0.0-rc1'')]"
    by (simp add: checkSemVer_def)
qed

section \<open>The platform table\<close>

lemma archListed_iff: "archListed archs a \<longleftrightarrow> a \<in> set archs"
  by (induction archs) auto

lemma checkPlatform_range_eq:
  "checkPlatform_range es p =
     (case map_of es (OS p) of
        None \<Rightarrow> [ErrOperationSystem (OS p)]
      | Some archs \<Rightarrow> if Arch p \<in> set archs then [] else [ErrCombination (OS p) (Arch p)])"
  by (induction es p rule: checkPlatform_range.induct) (auto simp add: archListed_iff)

text \<open>The order in which the map is ranged over does not show in the result.\<close>

lemma checkPlatform_any_order:
  assumes "distinct (map fst es)" and "set es' = set es" and "distinct (map fst es')"
  shows "checkPlatform_range es' p = checkPlatform_range es p"
proof -
  have "map_of es' = map_of es"
    using assms by (simp add: map_of_inject_set)
  then show ?thesis by (simp add: checkPlatform_range_eq)
qed

lemma validCombins_distinct: "distinct (map fst validCombins)"
  by (simp add: validCombins_def S_simps)

lemma map_of_listed:
  "distinct (map fst es) \<Longrightarrow> map_of es k = Some v \<longleftrightarrow> (k, v) \<in> set es"
  by (metis map_of_SomeD map_of_is_SomeI)

lemma checkPlatform_eq:
  "checkPlatform spec rootfs =
     (case map_of validCombins (OS (Platform spec)) of
        None \<Rightarrow> [ErrOperationSystem (OS (Platform spec))]
      | Some archs \<Rightarrow>
          if Arch (Platform spec) \<in> set archs then []
          else [ErrCombination (OS (Platform spec)) (Arch (Platform spec))])"
  by (simp add: checkPlatform_def checkPlatform_range_eq)

lemma linux_row: "map_of validCombins (S ''linux'') = Some linuxArchs"
  by (simp add: validCombins_def linuxArchs_def S_simps)

text \<open>
  C7: the platform checker accepts a pair exactly when the table lists the
  architecture for the operating system, and the row of \<^verbatim>\<open>linux\<close> is 386, amd64, arm,
  arm64, ppc64, ppc64le, mips64, mips64le. An operating system that is not in the table
  gives the one error that names it; a listed one with another architecture gives the one
  error that names both. This holds in whatever order the table is ranged over.
  (linux, amd64) is accepted, (linux, sparc) is rejected for the combination, and
  (aix, amd64) for the operating system.
\<close>

theorem checkPlatform_table:
  "(checkPlatform spec rootfs = [] \<longleftrightarrow>
      (\<exists>archs. (OS (Platform spec), archs) \<in> set validCombins \<and> Arch (Platform spec) \<in> set archs))
   \<and> (OS (Platform spec) \<notin> fst ` set validCombins \<longrightarrow>
        checkPlatform spec rootfs = [ErrOperationSystem (OS (Platform spec))])
   \<and> (OS (Platform spec) \<in> fst ` set validCombins \<and> checkPlatform spec rootfs \<noteq> [] \<longrightarrow>
        checkPlatform spec rootfs = [ErrCombination (OS (Platform spec)) (Arch (Platform spec))])
   \<and> (OS (Platform spec) = S ''linux'' \<longrightarrow>
        (checkPlatform spec rootfs = [] \<longleftrightarrow> Arch (Platform spec) \<in> set linuxArchs))
   \<and> (set es = set validCombins \<and> distinct (map fst es) \<longrightarrow>
        checkPlatform_range es (Platform spec) = checkPlatform spec rootfs)
   \<and> checkPlatform (spec\<lparr>Platform := \<lparr>OS = S ''linux'', Arch = S ''amd64''\<rparr>\<rparr>) rootfs = []
   \<and> checkPlatform (spec\<lparr>Platform := \<lparr>OS = S ''linux'', Arch = S ''sparc''\<rparr>\<rparr>) rootfs
       = [ErrCombination (S ''linux'') (S ''sparc'')]
   \<and> checkPlatform (spec\<lparr>Platform := \<lparr>OS = S ''aix'', Arch = S ''amd64''\<rparr>\<rparr>) rootfs
       = [ErrOperationSystem (S ''aix'')]"
proof (intro conjI impI)
  note d = validCombins_distinct
  show "checkPlatform spec rootfs = [] \<longleftrightarrow>
      (\<exists>archs. (OS (Platform spec), archs) \<in> set validCombins \<and> Arch (Platform spec) \<in> set archs)"
  proof (cases "map_of validCombins (OS (Platform spec))")
    case None
    then have "\<And>archs. (OS (Platform spec), archs) \<notin> set validCombins"
      using map_of_listed [OF d] by (metis option.distinct(1))
    with None show ?thesis by (simp add: checkPlatform_eq)
  next
    case (Some archs)
    then have "\<And>a. (OS (Platform spec), a) \<in> set validCombins \<longleftrightarrow> a = archs"
      using map_of_listed [OF d] by (metis option.inject)
    with Some show ?thesis by (simp add: checkPlatform_eq)
  qed
  show "checkPlatform spec rootfs = [ErrOperationSystem (OS (Platform spec))]"
    if "OS (Platform spec) \<notin> fst ` set validCombins"
  proof -
    from that have "map_of validCombins (OS (Platform spec)) = None"
      by (simp add: map_of_eq_None_iff)
    then show ?thesis by (simp add: checkPlatform_eq)
  qed
  show "checkPlatform spec rootfs = [ErrCombination (OS (Platform spec)) (Arch (Platform spec))]"
    if "OS (Platform spec) \<in> fst ` set validCombins \<and> checkPlatform spec rootfs \<noteq> []"
  proof -
    from that obtain archs where "map_of validCombins (OS (Platform spec)) = Some archs"
      by (metis map_of_eq_None_iff not_Some_eq)
    with that show ?thesis by (simp add: checkPlatform_eq split: if_splits)
  qed
  show "checkPlatform spec rootfs = [] \<longleftrightarrow> Arch (Platform spec) \<in> set linuxArchs"
    if "OS (Platform spec) = S ''linux''"
    using that by (simp add: checkPlatform_eq linux_row)
  show "checkPlatform_range es (Platform spec) = checkPlatform spec rootfs"
    if "set es = set validCombins \<and> distinct (map fst es)"
    unfolding checkPlatform_def using that d by (intro checkPlatform_any_order) simp_all
  show "checkPlatform (spec\<lparr>Platform := \<lparr>OS = S ''linux'', Arch = S ''amd64''\<rparr>\<rparr>) rootfs = []"
    by (simp add: checkPlatform_eq linux_row) (simp add: linuxArchs_def S_simps)
  show "checkPlatform (spec\<lparr>Platform := \<lparr>OS = S ''linux'', Arch = S ''sparc''\<rparr>\<rparr>) rootfs
       = [ErrCombination (S ''linux'') (S ''sparc'')]"
    by (simp add: checkPlatform_eq linux_row) (simp add: linuxArchs_def S_simps)
  show "checkPlatform (spec\<lparr>Platform := \<lparr>OS = S ''aix'', Arch = S ''amd64''\<rparr>\<rparr>) rootfs
       = [ErrOperationSystem (S ''aix'')]"
    by (simp add: checkPlatform_def validCombins_def S_simps)
qed

text \<open>
  C7 at the example document with the platform (linux, sparc) and with (aix, amd64),
  the table ranged over from its last entry to its first.
\<close>

theorem checkPlatform_table_witness:
  "S ''linux'' \<in> fst ` set validCombins
   \<and> checkPlatform (exampleSpec\<lparr>Platform := \<lparr>OS = S ''linux'', Arch = S ''sparc''\<rparr>\<rparr>) []
       = [ErrCombination (S ''linux'') (S ''sparc'')]
   \<and> checkPlatform_range (rev validCombins) \<lparr>OS = S ''linux'', Arch = S ''sparc''\<rparr>
       = [ErrCombination (S ''linux'') (S ''sparc'')]
   \<and> S ''aix'' \<notin> fst ` set validCombins
   \<and> checkPlatform (exampleSpec\<lparr>Platform := \<lparr>OS = S ''aix'', Arch = S ''amd64''\<rparr>\<rparr>) []
       = [ErrOperationSystem (S ''aix'')]
   \<and> checkPlatform exampleSpec [] = []"
proof -
  let ?sparc = "exampleSpec\<lparr>Platform := \<lparr>OS = S ''linux'', Arch = S ''sparc''\<rparr>\<rparr>"
  let ?aix = "exampleSpec\<lparr>Platform := \<lparr>OS = S ''aix'', Arch = S ''amd64''\<rparr>\<rparr>"
  have l: "S ''linux'' \<in> fst ` set validCombins"
    by (simp add: validCombins_def S_simps)
  have a: "S ''aix'' \<notin> fst ` set validCombins"
    by (simp add: validCombins_def S_simps)
  have r: "set (rev validCombins) = set validCombins \<and> distinct (map fst (rev validCombins))"
    using validCombins_distinct by (simp add: rev_map [symmetric])
  have n: "Arch (Platform ?sparc) \<notin> set linuxArchs"
    by (simp add: linuxArchs_def S_simps)
  note t = checkPlatform_table [of ?sparc "[]" "rev validCombins"]
  from t n have ne: "checkPlatform ?sparc [] \<noteq> []" by simp
  with t l have 1: "checkPlatform ?sparc [] = [ErrCombination (S ''linux'') (S ''sparc'')]"
    by simp
  from t r have "checkPlatform_range (rev validCombins) (Platform ?sparc) = checkPlatform ?sparc []"
    by blast
  with 1 have 2: "checkPlatform_range (rev validCombins) \<lparr>OS = S ''linux'', Arch = S ''sparc''\<rparr>
       = [ErrCombination (S ''linux'') (S ''sparc'')]"
    by simp
  have 3: "checkPlatform ?aix [] = [ErrOperationSystem (S ''aix'')]"
    using checkPlatform_table [of ?aix "[]" "validCombins"] a by simp
  have "Arch (Platform exampleSpec) \<in> set linuxArchs"
    by (simp add: exampleSpec_def linuxArchs_def S_simps)
  then have 4: "checkPlatform exampleSpec [] = []"
    using checkPlatform_table [of exampleSpec "[]" "validCombins"]
    by (simp add: exampleSpec_def)
  from l 1 2 a 3 4 show ?thesis by blast
qed

section \<open>The architectures of a seccomp profile\<close>

lemmas arch_defs = ArchX86_def ArchX86_64_def ArchX32_def ArchARM_def ArchAARCH64_def
  ArchMIPS_def ArchMIPS64_def ArchMIPS64N32_def ArchMIPSEL_def ArchMIPSEL64_def
  ArchMIPSEL64N32_def

lemma seccompArchValid_iff: "seccompArchValid a \<longleftrightarrow> a \<in> set recognizedArchs"
  by (auto simp add: seccompArchValid_def recognizedArchs_def)

lemma recognizedArchs_distinct: "distinct recognizedArchs"
  by (simp add: recognizedArchs_def arch_defs S_simps)

lemma arch_errors:
  "ErrSeccompArchitecture a \<in> set (checkSeccomp s)
     \<longleftrightarrow> a \<in> set (Architectures s) \<and> a \<notin> set recognizedArchs"
  by (auto simp add: checkSeccomp_def Let_def appendInvalid_eq seccompArchValid_iff)

text \<open>
  C4, as the claim states it, fails: no set of fourteen tokens is the set the seccomp
  checker accepts, because it accepts eleven.
\<close>

theorem seccomp_architectures_not_fourteen:
  "\<not> (\<exists>A. card A = 14 \<and>
        (\<forall>s a. ErrSeccompArchitecture a \<in> set (checkSeccomp s)
                 \<longleftrightarrow> a \<in> set (Architectures s) \<and> a \<notin> A))"
proof
  assume "\<exists>A. card A = 14 \<and>
        (\<forall>s a. ErrSeccompArchitecture a \<in> set (checkSeccomp s)
                 \<longleftrightarrow> a \<in> set (Architectures s) \<and> a \<notin> A)"
  then obtain A where c: "card A = 14"
    and A: "\<And>s a. ErrSeccompArchitecture a \<in> set (checkSeccomp s)
                 \<longleftrightarrow> a \<in> set (Architectures s) \<and> a \<notin> A"
    by blast
  have "a \<in> A \<longleftrightarrow> a \<in> set recognizedArchs" for a
    using A [of a "\<lparr>DefaultAction = [], Architectures = [a], Syscalls = []\<rparr>"]
      arch_errors [of a "\<lparr>DefaultAction = [], Architectures = [a], Syscalls = []\<rparr>"]
    by simp
  then have "A = set recognizedArchs" by blast
  then have "card A = 11"
    using recognizedArchs_distinct by (simp add: distinct_card) (simp add: recognizedArchs_def)
  with c show False by simp
qed

text \<open>
  C4 (amended): the seccomp checker reports a declared architecture token exactly when
  it is not one of the eleven tokens of the switch (x86, x86_64, x32, arm, aarch64 and six
  MIPS variants), which are eleven different strings.
\<close>

theorem seccomp_architectures:
  "(ErrSeccompArchitecture a \<in> set (checkSeccomp s)
      \<longleftrightarrow> a \<in> set (Architectures s) \<and> a \<notin> set recognizedArchs)
   \<and> length recognizedArchs = 11 \<and> card (set recognizedArchs) = 11"
proof (intro conjI)
  show "ErrSeccompArchitecture a \<in> set (checkSeccomp s)
      \<longleftrightarrow> a \<in> set (Architectures s) \<and> a \<notin> set recognizedArchs"
    by (rule arch_errors)
  show l: "length recognizedArchs = 11"
    by (simp add: recognizedArchs_def)
  show "card (set recognizedArchs) = 11"
    using recognizedArchs_distinct l by (simp add: distinct_card)
qed

section \<open>Fields the walker never reports\<close>

lemma unit_other_kinds:
  "Kind v \<notin> {KPtr, KString, KSlice, KMap} \<Longrightarrow> checkMandatoryUnit v tagField parent = Inr []"
  by (cases v) (simp_all add: checkMandatoryUnit.simps)

lemma field_scalar:
  "Kind v \<in> {KBool, KInt, KUint, KFloat} \<Longrightarrow> checkField name (Field fname tag ex v) = Inr []"
  by (cases v) (simp_all add: checkMandatoryUnit.simps)

lemma appendAll_skip:
  "f y = Inr [] \<Longrightarrow> appendAll f (xs @ y # ys) errs = appendAll f (xs @ ys) errs"
  by (induction xs arbitrary: errs) (auto split: sum.splits)

text \<open>
  C10: \<^verbatim>\<open>checkMandatoryUnit\<close> reports nothing for a field whose kind is not pointer,
  string, slice or map. A field of a boolean or numeric kind is never reported by the
  walker, whatever its value, its tag and its name: the walk of a struct (or of a pointer
  to it) with such a field gives what the walk of the struct without the field gives.
\<close>

theorem scalar_fields_never_missing:
  "(Kind v \<notin> {KPtr, KString, KSlice, KMap} \<longrightarrow>
      checkMandatoryUnit v tagField parent = Inr [])
   \<and> (Kind v \<in> {KBool, KInt, KUint, KFloat} \<longrightarrow>
        checkMandatoryUnit v (Field fname tag ex v) parent = Inr []
        \<and> checkField parent (Field fname tag ex v) = Inr []
        \<and> checkMandatory (VStruct parent (before @ Field fname tag ex v # after))
            = checkMandatory (VStruct parent (before @ after))
        \<and> checkMandatory (VPtr (VStruct parent (before @ Field fname tag ex v # after)))
            = checkMandatory (VPtr (VStruct parent (before @ after))))"
proof (intro conjI impI)
  show "checkMandatoryUnit v tagField parent = Inr []"
    if "Kind v \<notin> {KPtr, KString, KSlice, KMap}"
    using that by (rule unit_other_kinds)
  assume s: "Kind v \<in> {KBool, KInt, KUint, KFloat}"
  then have k: "Kind v \<notin> {KPtr, KString, KSlice, KMap}" by auto
  show "checkMandatoryUnit v (Field fname tag ex v) parent = Inr []"
    using k by (rule unit_other_kinds)
  show f: "checkField parent (Field fname tag ex v) = Inr []"
    using s by (rule field_scalar)
  show "checkMandatory (VStruct parent (before @ Field fname tag ex v # after))
        = checkMandatory (VStruct parent (before @ after))"
    using appendAll_skip [of "checkField parent" "Field fname tag ex v" before after "[]"] f
    by (simp add: checkMandatory.simps)
  show "checkMandatory (VPtr (VStruct parent (before @ Field fname tag ex v # after)))
        = checkMandatory (VPtr (VStruct parent (before @ after)))"
    using appendAll_skip [of "checkField parent" "Field fname tag ex v" before after "[]"] f
    by (simp add: checkMandatory.simps)
qed

text \<open>
  C10 at a struct with an empty required string and a required boolean that is false:
  the string is reported, the boolean is not.
\<close>

theorem scalar_fields_never_missing_witness:
  "Kind (VBool False) \<in> {KBool, KInt, KUint, KFloat}
   \<and> mandatory (S ''terminal'')
   \<and> checkField (S ''Process'') (Field (S ''Terminal'') (S ''terminal'') True (VBool False)) = Inr []
   \<and> checkMandatory (VStruct (S ''Process'')
        [Field (S ''Cwd'') (S ''cwd'') True (VString []),
         Field (S ''Terminal'') (S ''terminal'') True (VBool False)])
       = Inr [ErrMandatoryUnit (S ''Process'') (S ''Cwd'')]"
proof -
  have k: "Kind (VBool False) \<in> {KBool, KInt, KUint, KFloat}" by simp
  have m: "mandatory (S ''terminal'')" "mandatory (S ''cwd'')"
    by (simp_all add: mandatory_def S_simps)
  note t = scalar_fields_never_missing [of "VBool False" _ "S ''Process''" "S ''Terminal''"
      "S ''terminal''" True "[Field (S ''Cwd'') (S ''cwd'') True (VString [])]" "[]"]
  from t k have f:
    "checkField (S ''Process'') (Field (S ''Terminal'') (S ''terminal'') True (VBool False)) = Inr []"
    by blast
  from t k have "checkMandatory (VStruct (S ''Process'')
        ([Field (S ''Cwd'') (S ''cwd'') True (VString [])]
         @ Field (S ''Terminal'') (S ''terminal'') True (VBool False) # []))
      = checkMandatory (VStruct (S ''Process'')
        ([Field (S ''Cwd'') (S ''cwd'') True (VString [])] @ []))"
    by blast
  also have "\<dots> = Inr [ErrMandatoryUnit (S ''Process'') (S ''Cwd'')]"
    using m by (simp add: checkMandatory.simps checkMandatoryUnit.simps)
  finally show ?thesis using k m f by simp
qed

section \<open>Hostname and the UTS namespace\<close>

lemma namespaces_loop:
  "checkLinux_namespaces nss (errs, u) =
     (errs @ map ErrNamespace (filter (\<lambda>ns. \<not> namespaceValid ns) nss),
      u \<or> (\<exists>ns\<in>set nss. namespaceValid ns \<and> nsType ns = UTSNamespace))"
  by (induction nss arbitrary: errs u) auto



lemma checkLinux_eq:
  "checkLinux spec rootfs =
     linuxHead spec
     @ (if OS (Platform spec) = S ''linux''
           \<and> \<not> (\<exists>ns\<in>set (Namespaces (Linux spec)). namespaceValid ns \<and> nsType ns = UTSNamespace)
           \<and> Hostname spec \<noteq> []
        then [ErrHostnameUTS] else [])
     @ linuxTail spec"
  by (simp add: checkLinux_def Let_def namespaces_loop appendInvalid_eq linuxHead_def linuxTail_def
      split: option.splits)












section \<open>The pipeline\<close>

lemma logErrors_eq: "logErrors errs (lg, r) = (lg @ errs, if errs = [] then r else 1)"
  by (induction errs arbitrary: lg r) auto

text \<open>The process always ends with the status 0.\<close>

lemma exitStatus_zero: "exitStatus (bundleValidate W spec rootfs) = 0"
  by (simp add: bundleValidate_def split: prod.splits)

text \<open>
  When neither the walker nor the hooks checker panics, the run logs the errors of the
  six checks one list after the other, and it logs its success exactly when there is none.
\<close>

lemma bundleValidate_returns:
  assumes "checkMandatoryFields W spec rootfs = Inr e0" and "checkHooks W spec rootfs = Inr e5"
  shows "logged (bundleValidate W spec rootfs)
           = e0 @ checkSemVer spec rootfs @ checkPlatform spec rootfs @ checkProcess W spec rootfs
               @ checkLinux spec rootfs @ e5"
    and "panicked (bundleValidate W spec rootfs) = None"
    and "ret (bundleValidate W spec rootfs)
           = (if logged (bundleValidate W spec rootfs) = [] then 0 else 1)"
    and "succeeded (bundleValidate W spec rootfs) \<longleftrightarrow> logged (bundleValidate W spec rootfs) = []"
  using assms
  by (simp_all add: bundleValidate_def checks_def returns_def logErrors_eq)

text \<open>The walker returns errors of its own two forms only.\<close>

lemma appendAll_errors:
  assumes "appendAll f xs errs = Inr es"
    and "\<And>x es'. x \<in> set xs \<Longrightarrow> f x = Inr es' \<Longrightarrow> list_all Q es'"
    and "list_all Q errs"
  shows "list_all Q es"
  using assms
proof (induction xs arbitrary: errs)
  case Nil
  then show ?case by simp
next
  case (Cons x xs)
  from Cons.prems(1) obtain e1 where e1: "f x = Inr e1"
    and r: "appendAll f xs (errs @ e1) = Inr es"
    by (auto split: sum.splits)
  have "list_all Q e1" using Cons.prems(2) [of x e1] e1 by simp
  with Cons.prems(3) have q: "list_all Q (errs @ e1)" by simp
  show ?case
  proof (rule Cons.IH [OF r])
    fix y es' assume "y \<in> set xs" "f y = Inr es'"
    then show "list_all Q es'" using Cons.prems(2) [of y es'] by simp
  next
    show "list_all Q (errs @ e1)" by (rule q)
  qed
qed

lemma walker_errors:
  "(\<forall>es. checkMandatory obj = Inr es \<longrightarrow> list_all isMandatoryError es)"
  "(\<forall>es. checkMandatoryUnit v tagField parent = Inr es \<longrightarrow> list_all isMandatoryError es)"
  "(\<forall>es. checkField name f = Inr es \<longrightarrow> list_all isMandatoryError es)"
  "(\<forall>es. checkElement canInterface mValue = Inr es \<longrightarrow> list_all isMandatoryError es)"
proof (induction obj and v tagField parent and name f and canInterface mValue
    rule: checkMandatory_checkMandatoryUnit_checkField_checkElement.induct)
  case (1 obj)
  show ?case
  proof (intro allI impI)
    fix es assume a: "checkMandatory obj = Inr es"
    show "list_all isMandatoryError es"
    proof (cases obj)
      case (VStruct name fs)
      with a have "appendAll (checkField name) fs [] = Inr es"
        by (simp add: checkMandatory.simps)
      then show ?thesis
      proof (rule appendAll_errors)
        fix x es' assume "x \<in> set fs" "checkField name x = Inr es'"
        then show "list_all isMandatoryError es'" using "1.IH"(2) VStruct by blast
      qed simp
    next
      case (VPtr p)
      show ?thesis
      proof (cases p)
        case (VStruct name fs)
        with a VPtr have "appendAll (checkField name) fs [] = Inr es"
          by (simp add: checkMandatory.simps)
        then show ?thesis
        proof (rule appendAll_errors)
          fix x es' assume "x \<in> set fs" "checkField name x = Inr es'"
          then show "list_all isMandatoryError es'" using "1.IH"(1) VPtr VStruct by blast
        qed simp
      qed (use a VPtr in \<open>auto simp add: checkMandatory.simps\<close>)
    qed (use a in \<open>auto simp add: checkMandatory.simps split: elem.splits if_splits\<close>)
  qed
next
  case (2 name fname tag ex v)
  then show ?case by (auto split: if_splits)
next
  case (3 v tagField parent)
  show ?case
  proof (intro allI impI)
    fix es assume a: "checkMandatoryUnit v tagField parent = Inr es"
    show "list_all isMandatoryError es"
    proof (cases v)
      case (VSlice xs)
      show ?thesis
      proof (cases "mandatory (jsonTag tagField) \<and> length xs = 0")
        case True
        with a VSlice show ?thesis by (auto simp add: checkMandatoryUnit.simps)
      next
        case False
        with a VSlice have "appendAll (checkElement (exported tagField)) xs [] = Inr es"
          by (auto simp add: checkMandatoryUnit.simps split: if_splits)
        then show ?thesis
        proof (rule appendAll_errors)
          fix x es' assume "x \<in> set xs" "checkElement (exported tagField) x = Inr es'"
          then show "list_all isMandatoryError es'" using "3.IH"(1) VSlice False by blast
        qed simp
      qed
    next
      case (VMap kvs)
      show ?thesis
      proof (cases "mandatory (jsonTag tagField) \<and> length kvs = 0")
        case True
        with a VMap show ?thesis by (auto simp add: checkMandatoryUnit.simps)
      next
        case False
        with a VMap have
          "appendAll (\<lambda>kv. checkElement (exported tagField) (snd kv)) kvs [] = Inr es"
          by (auto simp add: checkMandatoryUnit.simps split: if_splits)
        then show ?thesis
        proof (rule appendAll_errors)
          fix x es' assume "x \<in> set kvs" "checkElement (exported tagField) (snd x) = Inr es'"
          then show "list_all isMandatoryError es'" using "3.IH"(2) VMap False by blast
        qed simp
      qed
    qed (use a in \<open>auto simp add: checkMandatoryUnit.simps split: if_splits\<close>)
  qed
next
  case (4 canInterface mValue)
  then show ?case
    by (auto simp add: checkElement.simps split: if_splits gval.splits option.splits)
qed

lemma not_logged_semver: "ErrHookNotFound t p \<notin> set (checkSemVer spec rootfs)"
  by (simp add: checkSemVer_def Let_def)

lemma not_logged_platform: "ErrHookNotFound t p \<notin> set (checkPlatform spec rootfs)"
  by (simp add: checkPlatform_eq split: option.splits)

lemma not_logged_process: "ErrHookNotFound t p \<notin> set (checkProcess W spec rootfs)"
  by (auto simp add: checkProcess_def Let_def appendInvalid_eq split: sum.splits)

lemma not_logged_linux: "ErrHookNotFound t p \<notin> set (checkLinux spec rootfs)"
  by (auto simp add: checkLinux_eq linuxHead_def linuxTail_def checkSeccomp_def Let_def
      appendInvalid_eq split: option.splits)

lemma not_logged_walker:
  "checkMandatoryFields W spec rootfs = Inr es \<Longrightarrow> ErrHookNotFound t p \<notin> set es"
  using walker_errors(1) [of "reflectSpec W spec"]
  by (auto simp add: checkMandatoryFields_def list_all_iff)

text \<open>
  C1 fails on the code. With the verification of hooks on the host switched on, on any
  document whose one pre-start hook has a path that \<^verbatim>\<open>os.Stat\<close> cannot find, the run
  ends in a panic: the hooks checker never returns its list, so the error for the missing
  hook is not among the logged errors, and the process ends with the status 0.
\<close>

theorem bundleValidate_missing_hook_panics:
  "panicked (bundleValidate (W\<lparr>hooksCheck := True, os_Stat := (\<lambda>p. Inl 2)\<rparr>)
       (spec\<lparr>Hooks := \<lparr>Prestart = [\<lparr>hookPath = S ''/missing'', hookArgs = [], hookEnv = []\<rparr>],
          Poststart = [], Poststop = []\<rparr>\<rparr>) rootfs) \<noteq> None
   \<and> ErrHookNotFound (S ''pre-start'') (S ''/missing'')
       \<notin> set (logged (bundleValidate (W\<lparr>hooksCheck := True, os_Stat := (\<lambda>p. Inl 2)\<rparr>)
            (spec\<lparr>Hooks := \<lparr>Prestart = [\<lparr>hookPath = S ''/missing'', hookArgs = [], hookEnv = []\<rparr>],
               Poststart = [], Poststop = []\<rparr>\<rparr>) rootfs))
   \<and> exitStatus (bundleValidate (W\<lparr>hooksCheck := True, os_Stat := (\<lambda>p. Inl 2)\<rparr>)
       (spec\<lparr>Hooks := \<lparr>Prestart = [\<lparr>hookPath = S ''/missing'', hookArgs = [], hookEnv = []\<rparr>],
          Poststart = [], Poststop = []\<rparr>\<rparr>) rootfs) = 0"
  (is "panicked (bundleValidate ?W ?spec rootfs) \<noteq> None \<and> _ \<and> _")
proof (intro conjI)
  note h = checkHooks_missing [where W = W and spec = spec and hooks = "[]" and ps = "[]"
      and pp = "[]" and rootfs = rootfs]
  show "panicked (bundleValidate ?W ?spec rootfs) \<noteq> None"
    by (simp add: bundleValidate_def checks_def returns_def h split: sum.splits prod.splits)
  show "ErrHookNotFound (S ''pre-start'') (S ''/missing'')
          \<notin> set (logged (bundleValidate ?W ?spec rootfs))"
  proof (cases "checkMandatoryFields ?W ?spec rootfs")
    case (Inl p)
    then show ?thesis
      by (simp add: bundleValidate_def checks_def)
  next
    case (Inr e0)
    then have "logged (bundleValidate ?W ?spec rootfs)
        = e0 @ checkSemVer ?spec rootfs @ checkPlatform ?spec rootfs @ checkProcess ?W ?spec rootfs
            @ checkLinux ?spec rootfs"
      by (simp add: bundleValidate_def checks_def returns_def logErrors_eq h)
    then show ?thesis
      using not_logged_walker [OF Inr] not_logged_semver not_logged_platform not_logged_process
        not_logged_linux
      by simp
  qed
  show "exitStatus (bundleValidate ?W ?spec rootfs) = 0"
    by (rule exitStatus_zero)
qed

end
